theory Spec2Isabelle
  imports Main "HOL-Library.Word" "HOL-Library.Multiset"
begin

section \<open>The JVMCI lifecycle and diagnostics core (jvmci.cpp)\<close>

text \<open>
  A shallow embedding of \<^verbatim>\<open>src/hotspot/share/jvmci/jvmci.cpp\<close>. Every function of
  the source that a property below talks about is a HOL function of the same name. The
  static fields of class \<^verbatim>\<open>JVMCI\<close> and the VM flags the functions read are fields of
  records that are passed in and, where the source writes them, returned. What the
  functions call in the rest of the VM and in the operating system (the C heap, the
  dynamic loader, class loading, the event log, the preparation of the error file) is a
  parameter of the model. An \<^verbatim>\<open>int\<close> of the source is a HOL integer: on sizes and
  indices that are not negative, no operation of the modelled functions leaves the range
  of the type.
\<close>

subsection \<open>Values, failures and the C heap\<close>

text \<open>
  A \<^verbatim>\<open>jlong\<close> is a 64-bit integer, and the addition of two counters is the addition
  of the machine: \<open>+\<close> on words, which wraps around. A run of a function
  either returns (\<open>Inr\<close>) or stops: \<open>Fatal\<close> is a call of \<^verbatim>\<open>fatal\<close>, a failed
  \<^verbatim>\<open>guarantee\<close> or, in a build with assertions, a failed \<^verbatim>\<open>assert\<close>; the VM
  prints the message and terminates the process. \<open>Undefined\<close> marks what C++ leaves
  undefined (an access outside an array, or through a null or released pointer).
\<close>

type_synonym jlong = "64 word"

datatype error = Fatal string | Undefined

text \<open>
  A \<^verbatim>\<open>jlong*\<close> field that owns a C-heap array: null, the array it points to, or a
  pointer whose storage has been given back with \<^verbatim>\<open>FREE_C_HEAP_ARRAY\<close>. No two
  pointer fields of the file share an array.
\<close>

datatype counters = NULL | Array "jlong list" | Freed

text \<open>
  The outcome of one request to the C heap is an input of the model: \<open>None\<close> when the
  request fails, \<open>Some g\<close> when it succeeds, where \<open>g i\<close> is what cell \<open>i\<close> of the
  fresh, uninitialised block happens to hold.
\<close>

type_synonym heap_request = "(nat \<Rightarrow> jlong) option"

text \<open>
  \<^verbatim>\<open>NEW_C_HEAP_ARRAY_RETURN_NULL(jlong, size, mtJVMCI)\<close>: null when the request fails.
  The element count is converted to \<^verbatim>\<open>size_t\<close>; a negative count is outside the
  contract of the allocator.
\<close>

definition NEW_C_HEAP_ARRAY_RETURN_NULL :: "heap_request \<Rightarrow> int \<Rightarrow> error + jlong list option" where
  "NEW_C_HEAP_ARRAY_RETURN_NULL req n =
     (if n < 0 then Inl Undefined
      else case req of
             None \<Rightarrow> Inr None
           | Some g \<Rightarrow> Inr (Some (map g [0..<nat n])))"

text \<open>
  \<^verbatim>\<open>memset(p + off, 0, sizeof(jlong) * n)\<close> on the array \<open>p\<close>: cells \<open>off\<close> to
  \<open>off + n - 1\<close> become zero. Both values are element counts.
\<close>

definition memset_zero :: "jlong list \<Rightarrow> int \<Rightarrow> int \<Rightarrow> error + jlong list" where
  "memset_zero p off n =
     (if 0 \<le> off \<and> 0 \<le> n \<and> nat (off + n) \<le> length p
      then Inr (take (nat off) p @ replicate (nat n) 0 @ drop (nat (off + n)) p)
      else Inl Undefined)"

definition MIN2 :: "int \<Rightarrow> int \<Rightarrow> int" where
  "MIN2 a b = (if a < b then a else b)"

subsection \<open>Resizing one counter array\<close>

text \<open>
  The loop \<^verbatim>\<open>for (int i = 0; i < n; i++) new_counters[i] = old_counters[i];\<close>
  entered with the given \<open>i\<close>.
\<close>

function copy_counters :: "jlong list \<Rightarrow> jlong list \<Rightarrow> nat \<Rightarrow> int \<Rightarrow> error + jlong list" where
  "copy_counters new_counters old_counters i n =
     (if int i < n then
        (if i < length new_counters \<and> i < length old_counters
         then copy_counters (new_counters[i := old_counters ! i]) old_counters (Suc i) n
         else Inl Undefined)
      else Inr new_counters)"
  by pat_completeness auto
termination
  by (relation "measure (\<lambda>(new_counters, old_counters, i, n). nat (n - int i))") auto

declare copy_counters.simps [simp del]

text \<open>
  \<^verbatim>\<open>resize_counters_array(old_counters, current_size, new_size)\<close>. The result is the
  returned pointer; the array \<open>old_counters\<close> pointed to is released when a new one is
  returned and \<open>old_counters\<close> was not null.
\<close>

definition resize_counters_array :: "heap_request \<Rightarrow> counters \<Rightarrow> int \<Rightarrow> int \<Rightarrow> error + counters" where
  "resize_counters_array req old_counters current_size new_size =
     (case NEW_C_HEAP_ARRAY_RETURN_NULL req new_size of
        Inl e \<Rightarrow> Inl e
      | Inr None \<Rightarrow> Inr NULL
      | Inr (Some new_counters) \<Rightarrow>
          (case old_counters of
             NULL \<Rightarrow>
               (case memset_zero new_counters 0 new_size of
                  Inl e \<Rightarrow> Inl e
                | Inr zeroed \<Rightarrow> Inr (Array zeroed))
           | Freed \<Rightarrow> Inl Undefined
           | Array old \<Rightarrow>
               (case copy_counters new_counters old 0 (MIN2 current_size new_size) of
                  Inl e \<Rightarrow> Inl e
                | Inr copied \<Rightarrow>
                    if new_size > current_size
                    then (case memset_zero copied current_size (new_size - current_size) of
                            Inl e \<Rightarrow> Inl e
                          | Inr filled \<Rightarrow> Inr (Array filled))
                    else Inr (Array copied))))"

subsection \<open>Threads and the counter registry\<close>

text \<open>
  What the file reads and writes of a \<^verbatim>\<open>JavaThread\<close>: its name, whether it is a
  compiler thread, and the field \<^verbatim>\<open>jvmci()._jvmci_counters\<close>.
\<close>

record JavaThread =
  thread_name :: string
  is_Compiler_thread :: bool
  jvmci_counters :: counters

text \<open>
  The counter registry: the flag \<^verbatim>\<open>JVMCICounterSize\<close>, the static field
  \<^verbatim>\<open>JVMCI::_jvmci_old_thread_counters\<close> (the counters of the threads that have
  exited) and the live threads in the order in which a \<^verbatim>\<open>ThreadsListHandle\<close> visits
  them.
\<close>

record registry =
  JVMCICounterSize :: int
  jvmci_old_thread_counters :: counters
  threads :: "JavaThread list"

text \<open>\<^verbatim>\<open>JVMCI::resize_counters(thread, current_size, new_size)\<close>: the thread and the returned flag.\<close>

definition resize_counters :: "heap_request \<Rightarrow> JavaThread \<Rightarrow> int \<Rightarrow> int \<Rightarrow> error + JavaThread \<times> bool" where
  "resize_counters req thread current_size new_size =
     (case resize_counters_array req (jvmci_counters thread) current_size new_size of
        Inl e \<Rightarrow> Inl e
      | Inr new_counters \<Rightarrow>
          if new_counters = NULL then Inr (thread, False)
          else Inr (thread\<lparr>jvmci_counters := new_counters\<rparr>, True))"

text \<open>
  The loop of \<^verbatim>\<open>VM_JVMCIResizeCounters::doit\<close> over the threads. \<open>heap k\<close> is the
  outcome of the \<open>k\<close>-th request the operation makes to the C heap. The result is the
  threads and the value of \<^verbatim>\<open>_failed\<close>; the loop stops (\<^verbatim>\<open>break\<close>) at the first
  thread whose array cannot be resized.
\<close>

fun resize_each_thread :: "(nat \<Rightarrow> heap_request) \<Rightarrow> nat \<Rightarrow> int \<Rightarrow> int \<Rightarrow> JavaThread list \<Rightarrow> error + JavaThread list \<times> bool" where
  "resize_each_thread heap k current_size new_size [] = Inr ([], False)"
| "resize_each_thread heap k current_size new_size (tp # rest) =
     (case resize_counters (heap k) tp current_size new_size of
        Inl e \<Rightarrow> Inl e
      | Inr (tp', resized) \<Rightarrow>
          if \<not> resized then Inr (tp' # rest, True)
          else (case resize_each_thread heap (Suc k) current_size new_size rest of
                  Inl e \<Rightarrow> Inl e
                | Inr (rest', failed) \<Rightarrow> Inr (tp' # rest', failed)))"

text \<open>\<^verbatim>\<open>VM_JVMCIResizeCounters::doit\<close>: the registry afterwards and \<^verbatim>\<open>_failed\<close>.\<close>

definition doit :: "(nat \<Rightarrow> heap_request) \<Rightarrow> registry \<Rightarrow> int \<Rightarrow> error + registry \<times> bool" where
  "doit heap r new_size =
     (case resize_counters_array (heap 0) (jvmci_old_thread_counters r) (JVMCICounterSize r) new_size of
        Inl e \<Rightarrow> Inl e
      | Inr new_counters \<Rightarrow>
          if new_counters = NULL then Inr (r, True)
          else
            (let r1 = r\<lparr>jvmci_old_thread_counters := new_counters\<rparr> in
             case resize_each_thread heap 1 (JVMCICounterSize r) new_size (threads r1) of
               Inl e \<Rightarrow> Inl e
             | Inr (threads', failed) \<Rightarrow>
                 if \<not> failed
                 then Inr (r1\<lparr>threads := threads', JVMCICounterSize := new_size\<rparr>, failed)
                 else Inr (r1\<lparr>threads := threads'\<rparr>, failed)))"

text \<open>
  \<^verbatim>\<open>JVMCI::resize_all_jvmci_counters(new_size)\<close>: the VM thread runs the operation
  while every other thread is stopped; the result is \<^verbatim>\<open>!op.failed()\<close>.
\<close>

definition resize_all_jvmci_counters :: "(nat \<Rightarrow> heap_request) \<Rightarrow> registry \<Rightarrow> int \<Rightarrow> error + registry \<times> bool" where
  "resize_all_jvmci_counters heap r new_size =
     (case doit heap r new_size of
        Inl e \<Rightarrow> Inl e
      | Inr (r', failed) \<Rightarrow> Inr (r', \<not> failed))"

subsection \<open>Vocabulary of the properties of resizing\<close>

text \<open>
  The array a successful \<^verbatim>\<open>resize_counters_array\<close> returns for a block of
  \<open>current_size\<close> cells: the old values cut to the new size, then zeros.
\<close>

definition resized :: "int \<Rightarrow> int \<Rightarrow> counters \<Rightarrow> counters" where
  "resized current_size new_size c =
     (case c of
        NULL \<Rightarrow> Array (replicate (nat new_size) 0)
      | Array old \<Rightarrow> Array (take (nat new_size) old @ replicate (nat (new_size - current_size)) 0)
      | Freed \<Rightarrow> Freed)"

definition resized_thread :: "int \<Rightarrow> int \<Rightarrow> JavaThread \<Rightarrow> JavaThread" where
  "resized_thread current_size new_size t =
     t\<lparr>jvmci_counters := resized current_size new_size (jvmci_counters t)\<rparr>"

text \<open>
  A block that fits the configured size \<open>n\<close>: not yet created, or \<open>n\<close> cells
  (\<open>sized\<close>); a created block of \<open>n\<close> cells (\<open>allocated\<close>). A registry is
  consistent when its size is not negative and the retired pool and every live thread's
  block fit it.
\<close>

definition sized :: "int \<Rightarrow> counters \<Rightarrow> bool" where
  "sized n c = (case c of NULL \<Rightarrow> True | Array xs \<Rightarrow> length xs = nat n | Freed \<Rightarrow> False)"

definition allocated :: "int \<Rightarrow> counters \<Rightarrow> bool" where
  "allocated n c = (case c of NULL \<Rightarrow> False | Array xs \<Rightarrow> length xs = nat n | Freed \<Rightarrow> False)"

definition consistent :: "registry \<Rightarrow> bool" where
  "consistent r \<longleftrightarrow>
     0 \<le> JVMCICounterSize r \<and>
     sized (JVMCICounterSize r) (jvmci_old_thread_counters r) \<and>
     list_all (\<lambda>t. sized (JVMCICounterSize r) (jvmci_counters t)) (threads r)"

text \<open>A registry of four counters with one live thread, for concrete runs.\<close>

definition reg4 :: registry where
  "reg4 = \<lparr>JVMCICounterSize = 4, jvmci_old_thread_counters = Array [0, 0, 0, 0],
          threads = [\<lparr>thread_name = ''main'', is_Compiler_thread = False,
                      jvmci_counters = Array [1, 2, 3, 4]\<rparr>]\<rparr>"

subsection \<open>VM flags and the build\<close>

text \<open>
  The VM flags the file reads (their declarations are in \<^verbatim>\<open>jvmci_globals.hpp\<close> and
  \<^verbatim>\<open>globals.hpp\<close>); a \<^verbatim>\<open>ccstr\<close> flag that is not set is \<open>None\<close>.
  \<open>ASSERT\<close> says whether the VM was built with the macro \<^verbatim>\<open>ASSERT\<close> defined (a
  debug build): HotSpot's \<^verbatim>\<open>assert(p, msg)\<close> stops the VM with a fatal error when
  \<open>p\<close> is false in such a build and is compiled to nothing in a product build, while
  \<^verbatim>\<open>guarantee\<close> and \<^verbatim>\<open>fatal\<close> are compiled into every build.
\<close>

record vm_flags =
  ASSERT :: bool
  JVMCICountersExcludeCompiler :: bool
  JVMCILibPath :: "string option"
  LogEvents :: bool
  JVMCIEventLogLevel :: int
  JVMCITraceLevel :: int
  ErrorFileToStdout :: bool
  ErrorFileToStderr :: bool
  JVMCINativeLibraryErrorFile :: "string option"

subsection \<open>Collecting, retiring and releasing counters\<close>

text \<open>The cells that can be read and written through a pointer: none through a null or released one.\<close>

definition cells :: "counters \<Rightarrow> jlong list" where
  "cells c = (case c of NULL \<Rightarrow> [] | Array xs \<Rightarrow> xs | Freed \<Rightarrow> [])"

definition jvmci_counters_include :: "vm_flags \<Rightarrow> JavaThread \<Rightarrow> bool" where
  "jvmci_counters_include flags thread \<longleftrightarrow>
     \<not> JVMCICountersExcludeCompiler flags \<or> \<not> is_Compiler_thread thread"

text \<open>
  The loop \<^verbatim>\<open>for (int i = 0; i < n; i++) array[i] += counters[i];\<close> entered with the
  given \<open>i\<close>. It is the inner loop of \<^verbatim>\<open>collect_counters\<close> and the loop of
  \<^verbatim>\<open>accumulate_counters\<close>.
\<close>

function add_counters :: "jlong list \<Rightarrow> jlong list \<Rightarrow> nat \<Rightarrow> int \<Rightarrow> error + jlong list" where
  "add_counters array cs i n =
     (if int i < n then
        (if i < length array \<and> i < length cs
         then add_counters (array[i := array ! i + cs ! i]) cs (Suc i) n
         else Inl Undefined)
      else Inr array)"
  by pat_completeness auto
termination
  by (relation "measure (\<lambda>(array, cs, i, n). nat (n - int i))") auto

declare add_counters.simps [simp del]

text \<open>The loop of \<^verbatim>\<open>collect_counters\<close> over the live threads.\<close>

fun collect_each_thread :: "vm_flags \<Rightarrow> jlong list \<Rightarrow> int \<Rightarrow> JavaThread list \<Rightarrow> error + jlong list" where
  "collect_each_thread flags array len [] = Inr array"
| "collect_each_thread flags array len (tp # rest) =
     (if jvmci_counters_include flags tp
      then (case add_counters array (cells (jvmci_counters tp)) 0 len of
              Inl e \<Rightarrow> Inl e
            | Inr array' \<Rightarrow> collect_each_thread flags array' len rest)
      else collect_each_thread flags array len rest)"

text \<open>
  \<^verbatim>\<open>JVMCI::collect_counters(array, length)\<close>: the caller's array afterwards. The first
  loop, \<^verbatim>\<open>array[i] = _jvmci_old_thread_counters[i]\<close>, has the shape of the copying
  loop of \<^verbatim>\<open>resize_counters_array\<close>.
\<close>

definition collect_counters :: "vm_flags \<Rightarrow> registry \<Rightarrow> jlong list \<Rightarrow> int \<Rightarrow> error + jlong list" where
  "collect_counters flags r array len =
     (if ASSERT flags \<and> len \<noteq> JVMCICounterSize r
      then Inl (Fatal ''assert(length == JVMCICounterSize) failed: wrong value'')
      else (case copy_counters array (cells (jvmci_old_thread_counters r)) 0 len of
              Inl e \<Rightarrow> Inl e
            | Inr array' \<Rightarrow> collect_each_thread flags array' len (threads r)))"

text \<open>
  \<^verbatim>\<open>FREE_C_HEAP_ARRAY(jlong, p)\<close>: the storage is given back and the pointer keeps its
  value; releasing null does nothing, releasing twice is undefined.
\<close>

definition FREE_C_HEAP_ARRAY :: "counters \<Rightarrow> error + counters" where
  "FREE_C_HEAP_ARRAY p = (case p of NULL \<Rightarrow> Inr NULL | Array xs \<Rightarrow> Inr Freed | Freed \<Rightarrow> Inl Undefined)"

text \<open>\<^verbatim>\<open>JVMCI::free_counters(JavaThread* thread)\<close>: the registry and the thread afterwards.\<close>

definition free_counters_thread :: "registry \<Rightarrow> JavaThread \<Rightarrow> error + registry \<times> JavaThread" where
  "free_counters_thread r thread =
     (if JVMCICounterSize r > 0
      then (case FREE_C_HEAP_ARRAY (jvmci_counters thread) of
              Inl e \<Rightarrow> Inl e
            | Inr p \<Rightarrow> Inr (r, thread\<lparr>jvmci_counters := p\<rparr>))
      else Inr (r, thread))"

text \<open>\<^verbatim>\<open>JVMCI::accumulate_counters(JavaThread* thread)\<close>: the registry afterwards.\<close>

definition accumulate_counters :: "vm_flags \<Rightarrow> registry \<Rightarrow> JavaThread \<Rightarrow> error + registry" where
  "accumulate_counters flags r thread =
     (if JVMCICounterSize r > 0 then
        (if jvmci_counters_include flags thread
         then (case jvmci_old_thread_counters r of
                 NULL \<Rightarrow> Inl Undefined
               | Freed \<Rightarrow> Inl Undefined
               | Array old \<Rightarrow>
                   (case add_counters old (cells (jvmci_counters thread)) 0 (JVMCICounterSize r) of
                      Inl e \<Rightarrow> Inl e
                    | Inr old' \<Rightarrow> Inr (r\<lparr>jvmci_old_thread_counters := Array old'\<rparr>)))
         else Inr r)
      else Inr r)"

text \<open>\<^verbatim>\<open>JVMCI::free_counters()\<close>: the registry afterwards.\<close>

definition free_counters :: "registry \<Rightarrow> error + registry" where
  "free_counters r =
     (if JVMCICounterSize r > 0
      then (case FREE_C_HEAP_ARRAY (jvmci_old_thread_counters r) of
              Inl e \<Rightarrow> Inl e
            | Inr p \<Rightarrow> Inr (r\<lparr>jvmci_old_thread_counters := p\<rparr>))
      else Inr r)"

subsection \<open>Vocabulary of the properties of collecting\<close>

text \<open>
  A pointer through which \<open>n\<close> cells can be read, and the sum at index \<open>i\<close> of the
  counters of the threads that \<^verbatim>\<open>jvmci_counters_include\<close> admits.
\<close>

definition readable :: "int \<Rightarrow> counters \<Rightarrow> bool" where
  "readable n c \<longleftrightarrow> nat n \<le> length (cells c)"

definition included_total :: "vm_flags \<Rightarrow> JavaThread list \<Rightarrow> nat \<Rightarrow> jlong" where
  "included_total flags ts i =
     sum_list (map (\<lambda>t. cells (jvmci_counters t) ! i) (filter (jvmci_counters_include flags) ts))"

text \<open>
  Concrete inputs: the flags of a product and of a debug build, both excluding compiler
  threads; a thread that incremented counter 0 twice; a compiler thread; and a registry
  of four counters whose live threads are three such threads and the compiler thread.
\<close>

definition product_build :: vm_flags where
  "product_build =
     \<lparr>ASSERT = False, JVMCICountersExcludeCompiler = True, JVMCILibPath = None,
      LogEvents = True, JVMCIEventLogLevel = 1, JVMCITraceLevel = 1,
      ErrorFileToStdout = False, ErrorFileToStderr = False,
      JVMCINativeLibraryErrorFile = None\<rparr>"

definition debug_build :: vm_flags where
  "debug_build = product_build\<lparr>ASSERT := True\<rparr>"

definition incremented_twice :: "string \<Rightarrow> JavaThread" where
  "incremented_twice n =
     \<lparr>thread_name = n, is_Compiler_thread = False, jvmci_counters = Array [2, 0, 0, 0]\<rparr>"

definition compiler_worker :: JavaThread where
  "compiler_worker =
     \<lparr>thread_name = ''JVMCI CompilerThread0'', is_Compiler_thread = True,
      jvmci_counters = Array [1, 2, 3, 4]\<rparr>"

definition reg3 :: registry where
  "reg3 = \<lparr>JVMCICounterSize = 4, jvmci_old_thread_counters = Array [0, 0, 0, 0],
           threads = [incremented_twice ''a'', compiler_worker, incremented_twice ''b'',
                      incremented_twice ''c'']\<rparr>"

subsection \<open>The shared library of the compiler\<close>

text \<open>
  What \<^verbatim>\<open>get_shared_library\<close> uses of the operating system and of the VM:
  \<^verbatim>\<open>os::dll_locate_lib(buf, size, dir, name)\<close>, which writes a path into the buffer or
  returns false (\<open>None\<close>); \<^verbatim>\<open>os::dll_load(path, ebuf, size)\<close>, which returns a handle
  (\<open>Inr\<close>), or null after writing the error text of the operating system into
  \<^verbatim>\<open>ebuf\<close> (\<open>Inl\<close>); \<^verbatim>\<open>strdup\<close>, which returns null when it has no memory;
  \<^verbatim>\<open>Arguments::get_dll_dir()\<close>; and the macro \<^verbatim>\<open>JVMCI_SHARED_LIBRARY_NAME\<close> of
  \<^verbatim>\<open>jvmci.hpp\<close>.
\<close>

record os_library =
  dll_locate_lib :: "string \<Rightarrow> string \<Rightarrow> string option"
  dll_load :: "string \<Rightarrow> string + nat"
  strdup :: "string \<Rightarrow> string option"
  get_dll_dir :: string
  JVMCI_SHARED_LIBRARY_NAME :: string

text \<open>
  The static fields \<^verbatim>\<open>JVMCI::_shared_library_handle\<close> and
  \<^verbatim>\<open>JVMCI::_shared_library_path\<close> (null is \<open>None\<close>), with two records of what the
  function has done: the paths \<^verbatim>\<open>os::dll_load\<close> has been called with, and the
  messages given to \<^verbatim>\<open>JVMCI_event_1\<close>.
\<close>

record library =
  shared_library_handle :: "nat option"
  shared_library_path :: "string option"
  dll_load_calls :: "string list"
  library_events :: "string list"

text \<open>
  \<^verbatim>\<open>JVMCI::get_shared_library(path, load)\<close>. \<open>owner\<close> says whether the calling thread
  owns \<^verbatim>\<open>JVMCI_lock\<close>. The result is the fields afterwards, the returned handle and
  the value left in \<^verbatim>\<open>path\<close>.
\<close>

definition get_shared_library ::
  "vm_flags \<Rightarrow> os_library \<Rightarrow> bool \<Rightarrow> library \<Rightarrow> bool \<Rightarrow> error + library \<times> nat option \<times> string option" where
  "get_shared_library flags os owner lib load =
     (let sl_handle = shared_library_handle lib in
      if sl_handle \<noteq> None \<or> \<not> load
      then Inr (lib, sl_handle, shared_library_path lib)
      else if ASSERT flags \<and> \<not> owner
      then Inl (Fatal ''assert(JVMCI_lock->owner() == Thread::current()) failed: must be'')
      else if shared_library_handle lib = None
      then
        (case (case JVMCILibPath flags of
                 Some lib_path \<Rightarrow>
                   (case dll_locate_lib os lib_path (JVMCI_SHARED_LIBRARY_NAME os) of
                      None \<Rightarrow>
                        Inl (Fatal (''Unable to create path to JVMCI shared library based on value of JVMCILibPath ('' @
                                    lib_path @ '')''))
                    | Some path \<Rightarrow> Inr path)
               | None \<Rightarrow>
                   (case dll_locate_lib os (get_dll_dir os) (JVMCI_SHARED_LIBRARY_NAME os) of
                      None \<Rightarrow> Inl (Fatal ''Unable to create path to JVMCI shared library'')
                    | Some path \<Rightarrow> Inr path)) of
           Inl e \<Rightarrow> Inl e
         | Inr path \<Rightarrow>
             (case dll_load os path of
                Inl ebuf \<Rightarrow>
                  Inl (Fatal (''Unable to load JVMCI shared library from '' @ path @ '': '' @ ebuf))
              | Inr handle \<Rightarrow>
                  (let lib' = lib\<lparr>shared_library_handle := Some handle,
                                  shared_library_path := strdup os path,
                                  dll_load_calls := dll_load_calls lib @ [path],
                                  library_events :=
                                    library_events lib @ [''loaded JVMCI shared library from '' @ path]\<rparr>
                   in Inr (lib', shared_library_handle lib', shared_library_path lib'))))
      else Inr (lib, shared_library_handle lib, shared_library_path lib))"

text \<open>
  A run of successive calls, each with its own \<open>owner\<close> and \<open>load\<close>: the fields after
  the last call and what each call returned. A fatal error ends the run.
\<close>

fun get_shared_library_calls ::
  "vm_flags \<Rightarrow> os_library \<Rightarrow> (bool \<times> bool) list \<Rightarrow> library \<Rightarrow>
   error + library \<times> (nat option \<times> string option) list" where
  "get_shared_library_calls flags os [] lib = Inr (lib, [])"
| "get_shared_library_calls flags os ((owner, load) # calls) lib =
     (case get_shared_library flags os owner lib load of
        Inl e \<Rightarrow> Inl e
      | Inr (lib', returned) \<Rightarrow>
          (case get_shared_library_calls flags os calls lib' of
             Inl e \<Rightarrow> Inl e
           | Inr (lib'', rest) \<Rightarrow> Inr (lib'', returned # rest)))"

text \<open>The directory the slow path looks in: the flag \<^verbatim>\<open>JVMCILibPath\<close> when it is set.\<close>

definition library_directory :: "vm_flags \<Rightarrow> os_library \<Rightarrow> string" where
  "library_directory flags os =
     (case JVMCILibPath flags of Some lib_path \<Rightarrow> lib_path | None \<Rightarrow> get_dll_dir os)"

text \<open>Concrete inputs: a system on which no library path can be built, one on which the
  library cannot be loaded, and one on which it loads.\<close>

definition no_path_os :: os_library where
  "no_path_os =
     \<lparr>dll_locate_lib = (\<lambda>dir name. None), dll_load = (\<lambda>path. Inl ''file not found''),
      strdup = Some, get_dll_dir = ''/jdk/lib'', JVMCI_SHARED_LIBRARY_NAME = ''jvmcicompiler''\<rparr>"

definition no_load_os :: os_library where
  "no_load_os =
     \<lparr>dll_locate_lib = (\<lambda>dir name. Some (dir @ ''/lib'' @ name @ ''.so'')),
      dll_load = (\<lambda>path. Inl ''file not found''),
      strdup = Some, get_dll_dir = ''/jdk/lib'', JVMCI_SHARED_LIBRARY_NAME = ''jvmcicompiler''\<rparr>"

definition loading_os :: os_library where
  "loading_os = no_load_os\<lparr>dll_load := (\<lambda>path. Inr 4096)\<rparr>"

definition no_library :: library where
  "no_library =
     \<lparr>shared_library_handle = None, shared_library_path = None, dll_load_calls = [],
      library_events = []\<rparr>"

text \<open>
  The fields after a load: the handle \<^verbatim>\<open>os::dll_load\<close> returned for the path, the
  \<^verbatim>\<open>strdup\<close> copy of the path, and the two records each one entry longer.
\<close>

definition library_after_load :: "os_library \<Rightarrow> library \<Rightarrow> string \<Rightarrow> nat \<Rightarrow> library" where
  "library_after_load os lib path h =
     lib\<lparr>shared_library_handle := Some h,
         shared_library_path := strdup os path,
         dll_load_calls := dll_load_calls lib @ [path],
         library_events := library_events lib @ [''loaded JVMCI shared library from '' @ path]\<rparr>"

text \<open>The fields after the library has been loaded on \<open>loading_os\<close>.\<close>

definition loaded_library :: library where
  "loaded_library =
     \<lparr>shared_library_handle = Some 4096,
      shared_library_path = Some ''/jdk/lib/libjvmcicompiler.so'',
      dll_load_calls = [''/jdk/lib/libjvmcicompiler.so''],
      library_events = [''loaded JVMCI shared library from /jdk/lib/libjvmcicompiler.so'']\<rparr>"

subsection \<open>Event log and trace\<close>

text \<open>The stream \<^verbatim>\<open>tty\<close>: the characters printed to it so far.\<close>

record console =
  tty :: string

text \<open>
  The static fields \<^verbatim>\<open>JVMCI::_events\<close> and \<^verbatim>\<open>JVMCI::_verbose_events\<close> (null is
  \<open>None\<close>). The class \<^verbatim>\<open>StringEventLog\<close> is declared in \<^verbatim>\<open>utilities/events.hpp\<close>:
  the type of a log is a parameter, and so is its method \<^verbatim>\<open>logv\<close>, which the functions
  below take as \<open>logv log thread message\<close> and which returns the log with the entry
  made for the thread. A message is the format with its arguments filled in.
\<close>

record 'log event_logs = console +
  events :: "'log option"
  verbose_events :: "'log option"

text \<open>The conversions \<^verbatim>\<open>%d\<close> and \<^verbatim>\<open>%*c\<close> (of a blank, with the given width) of \<^verbatim>\<open>printf\<close>.\<close>

function print_unsigned :: "nat \<Rightarrow> string" where
  "print_unsigned n =
     (if n < 10 then [''0123456789'' ! n]
      else print_unsigned (n div 10) @ [''0123456789'' ! (n mod 10)])"
  by pat_completeness auto
termination
  by (relation "measure (\<lambda>n. n)") auto

declare print_unsigned.simps [simp del]

definition print_d :: "int \<Rightarrow> string" where
  "print_d i = (if i < 0 then ''-'' @ print_unsigned (nat (- i)) else print_unsigned (nat i))"

definition print_blank :: "int \<Rightarrow> string" where
  "print_blank width = replicate (max 1 (nat \<bar>width\<bar>)) CHR '' ''"

text \<open>
  \<^verbatim>\<open>JVMCI::vlog(level, format, ap)\<close>. \<open>thread\<close> is what
  \<^verbatim>\<open>Thread::current_or_null_safe()\<close> returns for the caller.
\<close>

definition vlog ::
  "('log \<Rightarrow> JavaThread \<Rightarrow> string \<Rightarrow> 'log) \<Rightarrow> vm_flags \<Rightarrow> JavaThread option \<Rightarrow> 'log event_logs \<Rightarrow>
   int \<Rightarrow> string \<Rightarrow> error + 'log event_logs" where
  "vlog logv flags thread st level message =
     (if LogEvents flags \<and> JVMCIEventLogLevel flags \<ge> level
      then (case (if level = 1 then events st else verbose_events st) of
              None \<Rightarrow> Inl (Fatal ''guarantee(events != NULL) failed: JVMCI event log not yet initialized'')
            | Some log \<Rightarrow>
                (case thread of
                   None \<Rightarrow> Inr st
                 | Some t \<Rightarrow>
                     if level = 1 then Inr (st\<lparr>events := Some (logv log t message)\<rparr>)
                     else Inr (st\<lparr>verbose_events := Some (logv log t message)\<rparr>)))
      else Inr st)"

text \<open>\<^verbatim>\<open>JVMCI::vtrace(level, format, ap)\<close>.\<close>

definition vtrace :: "vm_flags \<Rightarrow> JavaThread option \<Rightarrow> 'log event_logs \<Rightarrow> int \<Rightarrow> string \<Rightarrow> 'log event_logs" where
  "vtrace flags thread st level message =
     (if JVMCITraceLevel flags \<ge> level
      then (let st' =
                  (case thread of
                     Some t \<Rightarrow>
                       st\<lparr>tty := tty st @ ''JVMCITrace-'' @ print_d level @ ''['' @ thread_name t @
                                  '']:'' @ print_blank level\<rparr>
                   | None \<Rightarrow>
                       st\<lparr>tty := tty st @ ''JVMCITrace-'' @ print_d level @ ''[?]:'' @
                                  print_blank level\<rparr>)
            in st'\<lparr>tty := tty st' @ message @ [CHR 0x0A]\<rparr>)
      else st)"

text \<open>The macro \<^verbatim>\<open>LOG_TRACE(level)\<close>, the body of \<^verbatim>\<open>JVMCI::event\<close>: the log, then the trace.\<close>

definition event ::
  "('log \<Rightarrow> JavaThread \<Rightarrow> string \<Rightarrow> 'log) \<Rightarrow> vm_flags \<Rightarrow> JavaThread option \<Rightarrow> 'log event_logs \<Rightarrow>
   int \<Rightarrow> string \<Rightarrow> error + 'log event_logs" where
  "event logv flags thread st level message =
     (case vlog logv flags thread st level message of
        Inl e \<Rightarrow> Inl e
      | Inr st' \<Rightarrow> Inr (vtrace flags thread st' level message))"

text \<open>
  Concrete inputs: a log that is the list of its entries, each the name of the thread
  and the message, and the state in which the level-1 log is empty and nothing has been
  printed.
\<close>

definition list_logv :: "(string \<times> string) list \<Rightarrow> JavaThread \<Rightarrow> string \<Rightarrow> (string \<times> string) list" where
  "list_logv log thread message = log @ [(thread_name thread, message)]"

definition empty_logs :: "(string \<times> string) list event_logs" where
  "empty_logs = \<lparr>tty = [], events = Some [], verbose_events = Some []\<rparr>"

subsection \<open>The log of fatal errors\<close>

text \<open>
  What \<^verbatim>\<open>fatal_log\<close> uses of the operating system and of the VM:
  \<^verbatim>\<open>os::current_thread_id()\<close>; \<^verbatim>\<open>VMError::prepare_log_file(pattern, default_pattern,
  overwrite_existing, buf, buflen)\<close>, which returns a descriptor or -1 and the name it
  wrote into the buffer; \<^verbatim>\<open>errno\<close> after it; \<^verbatim>\<open>os::strerror\<close>; and the macro
  \<^verbatim>\<open>LIBJVMCI_ERR_FILE\<close>.
\<close>

record crash_os =
  current_thread_id :: int
  prepare_log_file :: "string option \<Rightarrow> string \<Rightarrow> int \<times> string"
  errno :: int
  strerror :: "int \<Rightarrow> string"
  LIBJVMCI_ERR_FILE :: string

text \<open>
  The static fields \<^verbatim>\<open>_fatal_log_init_thread\<close>, \<^verbatim>\<open>_fatal_log_fd\<close> and
  \<^verbatim>\<open>_fatal_log_filename\<close>, and what has been written to each descriptor.
\<close>

record crash_log = console +
  fatal_log_init_thread :: int
  fatal_log_fd :: int
  fatal_log_filename :: "string option"
  written :: "(int \<times> string) list"

text \<open>
  The loop \<^verbatim>\<open>while (_fatal_log_fd == -1) os::naked_short_sleep(50);\<close>. Only another
  thread can publish the descriptor; on its own the loop returns at once or never (\<open>None\<close>).
\<close>

partial_function (option) await_fatal_log_fd :: "crash_log \<Rightarrow> crash_log option" where
  "await_fatal_log_fd cl = (if fatal_log_fd cl = - 1 then await_fatal_log_fd cl else Some cl)"

text \<open>
  \<^verbatim>\<open>JVMCI::fatal_log(buf, count)\<close>. The compare-and-exchange on
  \<^verbatim>\<open>_fatal_log_init_thread\<close> succeeds exactly when the field holds -1, and then stores
  the caller's thread id.
\<close>

definition fatal_log :: "vm_flags \<Rightarrow> crash_os \<Rightarrow> crash_log \<Rightarrow> string \<Rightarrow> nat \<Rightarrow> crash_log option" where
  "fatal_log flags os cl buf n =
     (case (if fatal_log_init_thread cl = - 1
            then (let cl1 = cl\<lparr>fatal_log_init_thread := current_thread_id os\<rparr>;
                      (log_fd, cl2) =
                        (if ErrorFileToStdout flags then (1, cl1)
                         else if ErrorFileToStderr flags then (2, cl1)
                         else (case prepare_log_file os (JVMCINativeLibraryErrorFile flags)
                                      (LIBJVMCI_ERR_FILE os) of
                                 (fd, name_buffer) \<Rightarrow>
                                   if fd \<noteq> - 1
                                   then (fd, cl1\<lparr>fatal_log_filename := Some name_buffer\<rparr>)
                                   else (1, cl1\<lparr>tty := tty cl1 @
                                            ''Can't open JVMCI shared library error report file. Error: '' @
                                            strerror os (errno os) @ [CHR 0x0A] @
                                            ''JVMCI shared library error report will be written to console.'' @
                                            [CHR 0x0A]\<rparr>)))
                  in Some (cl2\<lparr>fatal_log_fd := log_fd\<rparr>))
            else await_fatal_log_fd cl) of
        None \<Rightarrow> None
      | Some cl' \<Rightarrow> Some (cl'\<lparr>written := written cl' @ [(fatal_log_fd cl', take n buf)]\<rparr>))"

text \<open>Concrete inputs: a system on which the report file cannot be created, and the
  fields before any fatal error.\<close>

definition read_only_os :: crash_os where
  "read_only_os =
     \<lparr>current_thread_id = 7, prepare_log_file = (\<lambda>pattern default_pattern. (- 1, [])),
      errno = 30, strerror = (\<lambda>e. ''Read-only file system''),
      LIBJVMCI_ERR_FILE = ''hs_err_pid%p_libjvmci.log''\<rparr>"

definition no_crash :: crash_log where
  "no_crash =
     \<lparr>tty = [], fatal_log_init_thread = - 1, fatal_log_fd = - 1, fatal_log_filename = None,
      written = []\<rparr>"

subsection \<open>The caches of the box classes\<close>

text \<open>The symbols in the array \<^verbatim>\<open>box_classes\<close>, in its order.\<close>

datatype box_class =
    java_lang_Boolean
  | java_lang_Byte_ByteCache
  | java_lang_Short_ShortCache
  | java_lang_Character_CharacterCache
  | java_lang_Integer_IntegerCache
  | java_lang_Long_LongCache

definition box_classes :: "box_class list" where
  "box_classes =
     [java_lang_Boolean, java_lang_Byte_ByteCache, java_lang_Short_ShortCache,
      java_lang_Character_CharacterCache, java_lang_Integer_IntegerCache,
      java_lang_Long_LongCache]"

text \<open>
  Class loading belongs to the rest of the VM; its state \<open>'vm\<close>, its classes \<open>'k\<close> and
  its exceptions \<open>'e\<close> are parameters. \<^verbatim>\<open>SystemDictionary::resolve_or_fail\<close> returns a
  class or leaves a pending exception; \<^verbatim>\<open>InstanceKlass::initialize\<close> may leave a
  pending exception. The macro \<^verbatim>\<open>CHECK\<close> returns from the function when an exception
  is pending.
\<close>

record ('vm, 'k, 'e) class_loading =
  resolve_or_fail :: "box_class \<Rightarrow> 'vm \<Rightarrow> 'vm \<times> ('e + 'k)"
  is_not_initialized :: "'k \<Rightarrow> 'vm \<Rightarrow> bool"
  initialize :: "'k \<Rightarrow> 'vm \<Rightarrow> 'vm \<times> 'e option"

text \<open>The static field \<^verbatim>\<open>JVMCI::_box_caches_initialized\<close> and the state of class loading.\<close>

record 'vm box_caches =
  box_caches_initialized :: bool
  class_state :: 'vm

text \<open>
  The loop of \<^verbatim>\<open>ensure_box_caches_initialized\<close> over the rest of the array: the state
  of class loading afterwards and the pending exception, if the loop was left with one.
\<close>

fun initialize_each :: "('vm, 'k, 'e) class_loading \<Rightarrow> box_class list \<Rightarrow> 'vm \<Rightarrow> 'vm \<times> 'e option" where
  "initialize_each cl [] vm = (vm, None)"
| "initialize_each cl (c # rest) vm =
     (case resolve_or_fail cl c vm of
        (vm1, Inl e) \<Rightarrow> (vm1, Some e)
      | (vm1, Inr ik) \<Rightarrow>
          if is_not_initialized cl ik vm1
          then (case initialize cl ik vm1 of
                  (vm2, Some e) \<Rightarrow> (vm2, Some e)
                | (vm2, None) \<Rightarrow> initialize_each cl rest vm2)
          else initialize_each cl rest vm1)"

text \<open>\<^verbatim>\<open>JVMCI::ensure_box_caches_initialized(TRAPS)\<close>: the state afterwards and the pending exception.\<close>

definition ensure_box_caches_initialized ::
  "('vm, 'k, 'e) class_loading \<Rightarrow> 'vm box_caches \<Rightarrow> 'vm box_caches \<times> 'e option" where
  "ensure_box_caches_initialized cl s =
     (if box_caches_initialized s then (s, None)
      else (case initialize_each cl box_classes (class_state s) of
              (vm, Some e) \<Rightarrow> (s\<lparr>class_state := vm\<rparr>, Some e)
            | (vm, None) \<Rightarrow> (s\<lparr>class_state := vm, box_caches_initialized := True\<rparr>, None)))"

text \<open>
  In words: starting from \<open>vm\<close>, every class of the list, in order, resolves without an
  exception and, where it is not yet initialized, initializes without an exception.
\<close>

fun all_initialize :: "('vm, 'k, 'e) class_loading \<Rightarrow> box_class list \<Rightarrow> 'vm \<Rightarrow> bool" where
  "all_initialize cl [] vm \<longleftrightarrow> True"
| "all_initialize cl (c # rest) vm \<longleftrightarrow>
     (case resolve_or_fail cl c vm of
        (vm1, Inl e) \<Rightarrow> False
      | (vm1, Inr ik) \<Rightarrow>
          if is_not_initialized cl ik vm1
          then (case initialize cl ik vm1 of
                  (vm2, Some e) \<Rightarrow> False
                | (vm2, None) \<Rightarrow> all_initialize cl rest vm2)
          else all_initialize cl rest vm1)"

text \<open>
  Concrete inputs: class loading whose state is the number of times resolving
  \<^verbatim>\<open>Integer$IntegerCache\<close> will still fail, the classes resolved so far and the classes
  initialized so far.
\<close>

definition flaky_loading :: "(nat \<times> box_class list \<times> box_class list, box_class, string) class_loading" where
  "flaky_loading =
     \<lparr>resolve_or_fail =
        (\<lambda>c (failures, resolved, initialized).
           if c = java_lang_Integer_IntegerCache \<and> 0 < failures
           then ((failures - 1, resolved, initialized), Inl ''java.lang.NoClassDefFoundError'')
           else ((failures, resolved @ [c], initialized), Inr c)),
      is_not_initialized = (\<lambda>k (failures, resolved, initialized). k \<notin> set initialized),
      initialize =
        (\<lambda>k (failures, resolved, initialized). ((failures, resolved, initialized @ [k]), None))\<rparr>"

subsection \<open>More concrete inputs\<close>

text \<open>A thread attached to the VM, and a system on which the report file can be created.\<close>

definition main_thread :: JavaThread where
  "main_thread = \<lparr>thread_name = ''main'', is_Compiler_thread = False, jvmci_counters = NULL\<rparr>"

definition writable_os :: crash_os where
  "writable_os =
     read_only_os\<lparr>prepare_log_file :=
       (\<lambda>pattern default_pattern.
          (5, case pattern of Some p \<Rightarrow> p | None \<Rightarrow> default_pattern))\<rparr>"

section \<open>Properties\<close>

subsection \<open>Resizing one array\<close>

lemma copy_counters_run:
  "nat n \<le> length new_counters \<Longrightarrow> nat n \<le> length old_counters \<Longrightarrow> i \<le> nat n \<Longrightarrow>
   copy_counters new_counters old_counters i n =
     Inr (take i new_counters @ drop i (take (nat n) old_counters) @ drop (nat n) new_counters)"
proof (induction new_counters old_counters i n rule: copy_counters.induct)
  case (1 new_counters old_counters i n)
  show ?case
  proof (cases "int i < n")
    case False
    with "1.prems" have e: "i = nat n" by linarith
    have "copy_counters new_counters old_counters i n = Inr new_counters"
      using False by (simp add: copy_counters.simps [of new_counters old_counters i n])
    moreover have "take i new_counters @ drop i (take (nat n) old_counters) @ drop (nat n) new_counters
        = new_counters"
      by (simp add: e)
    ultimately show ?thesis by simp
  next
    case True
    with "1.prems" have b: "i < length new_counters" "i < length old_counters" "Suc i \<le> nat n"
      by linarith+
    have step: "copy_counters new_counters old_counters i n =
        copy_counters (new_counters[i := old_counters ! i]) old_counters (Suc i) n"
      using True b by (simp add: copy_counters.simps [of new_counters old_counters i n])
    have ih: "copy_counters (new_counters[i := old_counters ! i]) old_counters (Suc i) n =
        Inr (take (Suc i) (new_counters[i := old_counters ! i]) @
             drop (Suc i) (take (nat n) old_counters) @
             drop (nat n) (new_counters[i := old_counters ! i]))"
      using "1.IH" [OF True] b "1.prems" by simp
    have t: "take (Suc i) (new_counters[i := old_counters ! i]) = take i new_counters @ [old_counters ! i]"
      using b by (simp add: take_Suc_conv_app_nth)
    have d: "drop i (take (nat n) old_counters) = old_counters ! i # drop (Suc i) (take (nat n) old_counters)"
      using b by (simp add: Cons_nth_drop_Suc [symmetric])
    have u: "drop (nat n) (new_counters[i := old_counters ! i]) = drop (nat n) new_counters"
      using b by simp
    show ?thesis
      by (simp add: step ih t d u)
  qed
qed

lemma resize_counters_array_Array:
  assumes "0 \<le> current_size" and "0 \<le> new_size" and "length old = nat current_size"
  shows "resize_counters_array (Some g) (Array old) current_size new_size =
           Inr (Array (take (nat new_size) old @ replicate (nat (new_size - current_size)) 0))"
proof -
  let ?fresh = "map g [0..<nat new_size]"
  let ?m = "MIN2 current_size new_size"
  have m: "nat ?m \<le> length ?fresh" "nat ?m \<le> length old"
    using assms by (auto simp: MIN2_def)
  have c: "copy_counters ?fresh old 0 ?m = Inr (take (nat ?m) old @ drop (nat ?m) ?fresh)"
    using copy_counters_run [OF m, of 0] by simp
  show ?thesis
  proof (cases "new_size > current_size")
    case True
    then have e: "nat ?m = length old" "?m = current_size"
      using assms by (auto simp: MIN2_def)
    have l: "length (drop (nat current_size) ?fresh) = nat (new_size - current_size)"
      using assms True by simp
    have "memset_zero (take (nat ?m) old @ drop (nat ?m) ?fresh) current_size (new_size - current_size)
        = Inr (old @ replicate (nat (new_size - current_size)) 0)"
      using assms True l by (simp add: memset_zero_def e nat_diff_distrib)
    moreover have "take (nat new_size) old = old"
      using assms True by simp
    ultimately show ?thesis
      using assms True by (simp add: resize_counters_array_def NEW_C_HEAP_ARRAY_RETURN_NULL_def c)
  next
    case False
    then have e: "nat ?m = nat new_size" "length ?fresh = nat new_size"
      using assms by (auto simp: MIN2_def)
    show ?thesis
      using assms False by (simp add: resize_counters_array_def NEW_C_HEAP_ARRAY_RETURN_NULL_def c e)
  qed
qed

lemma resize_counters_array_NULL:
  assumes "0 \<le> new_size"
  shows "resize_counters_array (Some g) NULL current_size new_size =
           Inr (Array (replicate (nat new_size) 0))"
  using assms by (simp add: resize_counters_array_def NEW_C_HEAP_ARRAY_RETURN_NULL_def memset_zero_def)

lemma resize_counters_array_fails:
  assumes "0 \<le> new_size"
  shows "resize_counters_array None old_counters current_size new_size = Inr NULL"
  using assms by (simp add: resize_counters_array_def NEW_C_HEAP_ARRAY_RETURN_NULL_def)

text \<open>
  C6. Resizing a counter array from \<open>current_size\<close> to \<open>new_size\<close> cells keeps
  the value of every index below both sizes, zero-fills every index from the old size up
  to the new one, and the result has exactly \<open>new_size\<close> cells (so shrinking
  truncates). With no previous array (a block that is being created), the result has the
  requested number of cells, all zero, whatever the fresh memory held and for every
  size from zero up.
\<close>

theorem resize_counters_array_contents:
  assumes "0 \<le> new_size"
  shows "(0 \<le> current_size \<and> length old = nat current_size \<longrightarrow>
           (\<exists>new_counters.
              resize_counters_array (Some g) (Array old) current_size new_size = Inr (Array new_counters) \<and>
              length new_counters = nat new_size \<and>
              (\<forall>i. int i < min current_size new_size \<longrightarrow> new_counters ! i = old ! i) \<and>
              (\<forall>i. current_size \<le> int i \<and> int i < new_size \<longrightarrow> new_counters ! i = 0))) \<and>
         resize_counters_array (Some g) NULL current_size new_size = Inr (Array (replicate (nat new_size) 0))"
proof (intro conjI impI)
  assume a: "0 \<le> current_size \<and> length old = nat current_size"
  let ?new = "take (nat new_size) old @ replicate (nat (new_size - current_size)) 0"
  have r: "resize_counters_array (Some g) (Array old) current_size new_size = Inr (Array ?new)"
    using a assms by (simp add: resize_counters_array_Array)
  have l: "length ?new = nat new_size"
    using a assms by (simp add: min_def) linarith
  have p: "new_counters ! i = old ! i" if "int i < min current_size new_size" and "new_counters = ?new" for i new_counters
  proof -
    have "i < nat current_size" "i < nat new_size" using that by linarith+
    then show ?thesis using that a by (simp add: nth_append)
  qed
  have z: "?new ! i = 0" if "current_size \<le> int i \<and> int i < new_size" for i
  proof -
    have "length (take (nat new_size) old) = nat current_size" using that a by simp
    moreover have "i - nat current_size < nat (new_size - current_size)" using that a by linarith
    moreover have "\<not> i < nat current_size" using that a by linarith
    ultimately show ?thesis by (simp add: nth_append)
  qed
  show "\<exists>new_counters.
      resize_counters_array (Some g) (Array old) current_size new_size = Inr (Array new_counters) \<and>
      length new_counters = nat new_size \<and>
      (\<forall>i. int i < min current_size new_size \<longrightarrow> new_counters ! i = old ! i) \<and>
      (\<forall>i. current_size \<le> int i \<and> int i < new_size \<longrightarrow> new_counters ! i = 0)"
    using r l p z by blast
next
  show "resize_counters_array (Some g) NULL current_size new_size = Inr (Array (replicate (nat new_size) 0))"
    using assms by (rule resize_counters_array_NULL)
qed

theorem resize_counters_array_contents_witness:
  "resize_counters_array (Some (\<lambda>i. 7)) (Array [1, 2, 3, 4]) 4 8 = Inr (Array [1, 2, 3, 4, 0, 0, 0, 0]) \<and>
   resize_counters_array (Some (\<lambda>i. 7)) (Array [1, 2, 3, 4]) 4 2 = Inr (Array [1, 2]) \<and>
   resize_counters_array (Some (\<lambda>i. 7)) NULL 0 3 = Inr (Array [0, 0, 0])"
proof -
  have g: "(0::int) \<le> 8" "(0::int) \<le> 2" "(0::int) \<le> 3" by simp_all
  have w: "(0::int) \<le> 4 \<and> length [1, 2, 3, 4 :: jlong] = nat 4" by simp
  from resize_counters_array_contents [OF g(1), of 4 "[1, 2, 3, 4]" "\<lambda>i. 7"] w
  obtain a where a: "resize_counters_array (Some (\<lambda>i. 7)) (Array [1, 2, 3, 4]) 4 8 = Inr (Array a)"
    "length a = 8" "\<forall>i. int i < 4 \<longrightarrow> a ! i = [1, 2, 3, 4] ! i" "\<forall>i. 4 \<le> int i \<and> int i < 8 \<longrightarrow> a ! i = 0"
    by auto
  have "a ! 0 = 1" "a ! 1 = 2" "a ! 2 = 3" "a ! 3 = 4" using a(3) by auto
  moreover have "a ! 4 = 0" "a ! 5 = 0" "a ! 6 = 0" "a ! 7 = 0" using a(4) by auto
  ultimately have "a = [1, 2, 3, 4, 0, 0, 0, 0]"
    using a(2) by (intro nth_equalityI) (auto simp: less_Suc_eq numeral_eq_Suc)
  with a(1) have one: "resize_counters_array (Some (\<lambda>i. 7)) (Array [1, 2, 3, 4]) 4 8 = Inr (Array [1, 2, 3, 4, 0, 0, 0, 0])"
    by simp
  from resize_counters_array_contents [OF g(2), of 4 "[1, 2, 3, 4]" "\<lambda>i. 7"] w
  obtain b where b: "resize_counters_array (Some (\<lambda>i. 7)) (Array [1, 2, 3, 4]) 4 2 = Inr (Array b)"
    "length b = 2" "\<forall>i. int i < 2 \<longrightarrow> b ! i = [1, 2, 3, 4] ! i"
    by auto
  have "b ! 0 = 1" "b ! 1 = 2" using b(3) by auto
  then have "b = [1, 2]"
    using b(2) by (intro nth_equalityI) (auto simp: less_Suc_eq numeral_eq_Suc)
  with b(1) have two: "resize_counters_array (Some (\<lambda>i. 7)) (Array [1, 2, 3, 4]) 4 2 = Inr (Array [1, 2])"
    by simp
  have three: "resize_counters_array (Some (\<lambda>i. 7)) NULL 0 3 = Inr (Array [0, 0, 0])"
    using resize_counters_array_contents [OF g(3), of 0 "[]" "\<lambda>i. 7"] by (simp add: numeral_eq_Suc)
  show ?thesis using one two three by simp
qed

subsection \<open>Resizing every block\<close>

lemma resize_counters_array_sized:
  assumes "0 \<le> current_size" and "0 \<le> new_size" and "sized current_size c"
  shows "resize_counters_array (Some g) c current_size new_size = Inr (resized current_size new_size c)"
  using assms
  by (cases c) (simp_all add: sized_def resized_def resize_counters_array_Array resize_counters_array_NULL)

lemma resized_not_NULL: "resized current_size new_size c = NULL \<longleftrightarrow> False"
  by (cases c) (simp_all add: resized_def)

lemma resized_length:
  assumes "0 \<le> current_size" and "0 \<le> new_size" and "sized current_size c"
  shows "\<exists>xs. resized current_size new_size c = Array xs \<and> length xs = nat new_size"
proof (cases c)
  case (Array old)
  then have "length old = nat current_size" using assms by (simp add: sized_def)
  then have "length (take (nat new_size) old @ replicate (nat (new_size - current_size)) 0) = nat new_size"
    using assms by (simp add: min_def) linarith
  then show ?thesis using Array by (simp add: resized_def)
qed (use assms in \<open>simp_all add: resized_def sized_def\<close>)

lemma resize_counters_succeeds:
  assumes "0 \<le> current_size" and "0 \<le> new_size" and "sized current_size (jvmci_counters t)"
  shows "resize_counters (Some g) t current_size new_size = Inr (resized_thread current_size new_size t, True)"
  using assms
  by (simp add: resize_counters_def resize_counters_array_sized resized_not_NULL resized_thread_def)

lemma resize_counters_fails:
  assumes "0 \<le> new_size"
  shows "resize_counters None t current_size new_size = Inr (t, False)"
  using assms by (simp add: resize_counters_def resize_counters_array_fails)

lemma resize_each_thread_all:
  assumes "0 \<le> current_size" and "0 \<le> new_size"
    and "list_all (\<lambda>t. sized current_size (jvmci_counters t)) ts"
    and "\<forall>i < length ts. heap (k + i) \<noteq> None"
  shows "resize_each_thread heap k current_size new_size ts =
           Inr (map (resized_thread current_size new_size) ts, False)"
  using assms(3,4)
proof (induction ts arbitrary: k)
  case Nil
  then show ?case by simp
next
  case (Cons t ts)
  from Cons.prems(2) have "heap (k + 0) \<noteq> None" by blast
  then obtain g where g: "heap k = Some g" by auto
  have "\<forall>i < length ts. heap (Suc k + i) \<noteq> None"
    using Cons.prems(2) by force
  then have "resize_each_thread heap (Suc k) current_size new_size ts =
      Inr (map (resized_thread current_size new_size) ts, False)"
    using Cons.IH Cons.prems(1) by simp
  then show ?case
    using Cons.prems(1) assms(1,2) by (simp add: g resize_counters_succeeds)
qed

lemma resize_each_thread_stops:
  assumes "0 \<le> current_size" and "0 \<le> new_size"
    and "list_all (\<lambda>t. sized current_size (jvmci_counters t)) ts"
    and "j < length ts" and "\<forall>i < j. heap (k + i) \<noteq> None" and "heap (k + j) = None"
  shows "resize_each_thread heap k current_size new_size ts =
           Inr (map (resized_thread current_size new_size) (take j ts) @ drop j ts, True)"
  using assms(3-6)
proof (induction ts arbitrary: k j)
  case Nil
  then show ?case by simp
next
  case (Cons t ts)
  show ?case
  proof (cases j)
    case 0
    then show ?thesis using Cons.prems assms(2) by (simp add: resize_counters_fails)
  next
    case (Suc j')
    from Cons.prems(3) Suc have "heap (k + 0) \<noteq> None" by blast
    then obtain g where g: "heap k = Some g" by auto
    have "\<forall>i < j'. heap (Suc k + i) \<noteq> None"
      using Cons.prems(3) Suc by force
    moreover have "heap (Suc k + j') = None" "j' < length ts"
      using Cons.prems Suc by simp_all
    ultimately have "resize_each_thread heap (Suc k) current_size new_size ts =
        Inr (map (resized_thread current_size new_size) (take j' ts) @ drop j' ts, True)"
      using Cons.IH Cons.prems(1) by simp
    then show ?thesis
      using Cons.prems(1) assms(1,2) Suc by (simp add: g resize_counters_succeeds)
  qed
qed

lemma doit_pool_fails:
  assumes "0 \<le> new_size" and "heap 0 = None"
  shows "doit heap r new_size = Inr (r, True)"
  using assms by (simp add: doit_def resize_counters_array_fails)

lemma doit_all:
  assumes "0 \<le> new_size" and "consistent r" and "\<forall>k \<le> length (threads r). heap k \<noteq> None"
  shows "doit heap r new_size =
           Inr (\<lparr>JVMCICounterSize = new_size,
                 jvmci_old_thread_counters =
                   resized (JVMCICounterSize r) new_size (jvmci_old_thread_counters r),
                 threads = map (resized_thread (JVMCICounterSize r) new_size) (threads r)\<rparr>, False)"
proof -
  from assms(3) obtain g where g: "heap 0 = Some g" by auto
  have "\<forall>i < length (threads r). heap (1 + i) \<noteq> None"
    using assms(3) by simp
  then have "resize_each_thread heap 1 (JVMCICounterSize r) new_size (threads r) =
      Inr (map (resized_thread (JVMCICounterSize r) new_size) (threads r), False)"
    using assms(1,2) by (intro resize_each_thread_all) (simp_all add: consistent_def)
  then show ?thesis
    using assms(1,2) by (simp add: doit_def g resize_counters_array_sized consistent_def resized_not_NULL)
qed

lemma doit_thread_fails:
  assumes "0 \<le> new_size" and "consistent r" and "j < length (threads r)"
    and "\<forall>k \<le> j. heap k \<noteq> None" and "heap (Suc j) = None"
  shows "doit heap r new_size =
           Inr (\<lparr>JVMCICounterSize = JVMCICounterSize r,
                 jvmci_old_thread_counters =
                   resized (JVMCICounterSize r) new_size (jvmci_old_thread_counters r),
                 threads = map (resized_thread (JVMCICounterSize r) new_size) (take j (threads r)) @
                           drop j (threads r)\<rparr>, True)"
proof -
  from assms(4) obtain g where g: "heap 0 = Some g" by auto
  have "\<forall>i < j. heap (1 + i) \<noteq> None"
    using assms(4) by simp
  moreover have "heap (1 + j) = None" using assms(5) by simp
  ultimately have "resize_each_thread heap 1 (JVMCICounterSize r) new_size (threads r) =
      Inr (map (resized_thread (JVMCICounterSize r) new_size) (take j (threads r)) @ drop j (threads r), True)"
    using assms(1,2,3) by (intro resize_each_thread_stops) (simp_all add: consistent_def)
  then show ?thesis
    using assms(1,2) by (simp add: doit_def g resize_counters_array_sized consistent_def resized_not_NULL)
qed


lemma allocated_resized:
  assumes "0 \<le> current_size" and "0 \<le> new_size" and "sized current_size c"
  shows "allocated new_size (resized current_size new_size c)"
  using resized_length [OF assms] by (auto simp: allocated_def)

lemma first_failed_request:
  assumes "\<not> (\<forall>k \<le> n. heap k \<noteq> None)" and "heap 0 \<noteq> (None :: heap_request)"
  shows "\<exists>j < n. (\<forall>k \<le> j. heap k \<noteq> None) \<and> heap (Suc j) = None"
proof -
  define m where "m = (LEAST k. heap k = None)"
  from assms(1) obtain k where k: "k \<le> n" "heap k = None" by blast
  then have m: "heap m = None" "m \<le> k"
    unfolding m_def by (auto intro: LeastI Least_le)
  have least: "heap i \<noteq> None" if "i < m" for i
    using that not_less_Least unfolding m_def by blast
  from m(1) assms(2) obtain j where j: "m = Suc j" by (cases m) auto
  have "j < n" using j m(2) k(1) by simp
  moreover have "\<forall>k \<le> j. heap k \<noteq> None" using least j by simp
  ultimately show ?thesis using m(1) j by blast
qed

lemma consistent_reg4: "consistent reg4"
  by (simp add: consistent_def reg4_def sized_def)

text \<open>
  C1, in the form that holds of the code. On a consistent registry and for a new size that is not negative,
  \<^verbatim>\<open>resize_all_jvmci_counters\<close> returns, and reports success exactly when no
  request to the C heap fails. When the first request (the retired pool's) fails, the
  registry is unchanged. Whenever it reports failure, \<^verbatim>\<open>JVMCICounterSize\<close> is
  unchanged. When the request for live thread \<open>j\<close> is the first to fail, that thread
  and the threads after it keep their blocks, while the retired pool and the threads
  before it already have their resized blocks. When it reports success, the size is the
  new size and the retired pool and every live thread have a block of the new size, with
  the old values below both sizes and zeros above.
\<close>

theorem resize_all_jvmci_counters_outcome:
  assumes "0 \<le> new_size" and "consistent r"
  shows "\<exists>r' ok.
           resize_all_jvmci_counters heap r new_size = Inr (r', ok) \<and>
           (ok \<longleftrightarrow> (\<forall>k \<le> length (threads r). heap k \<noteq> None)) \<and>
           (heap 0 = None \<longrightarrow> r' = r) \<and>
           (\<not> ok \<longrightarrow> JVMCICounterSize r' = JVMCICounterSize r) \<and>
           (\<forall>j < length (threads r). (\<forall>k \<le> j. heap k \<noteq> None) \<and> heap (Suc j) = None \<longrightarrow>
              jvmci_old_thread_counters r' =
                resized (JVMCICounterSize r) new_size (jvmci_old_thread_counters r) \<and>
              threads r' =
                map (resized_thread (JVMCICounterSize r) new_size) (take j (threads r)) @
                drop j (threads r)) \<and>
           (ok \<longrightarrow>
              r' = \<lparr>JVMCICounterSize = new_size,
                     jvmci_old_thread_counters =
                       resized (JVMCICounterSize r) new_size (jvmci_old_thread_counters r),
                     threads = map (resized_thread (JVMCICounterSize r) new_size) (threads r)\<rparr> \<and>
              allocated new_size (jvmci_old_thread_counters r') \<and>
              list_all (\<lambda>t. allocated new_size (jvmci_counters t)) (threads r'))"
proof -
  let ?c = "JVMCICounterSize r"
  let ?all = "\<forall>k \<le> length (threads r). heap k \<noteq> None"
  have uniq: "j = j'"
    if "(\<forall>k \<le> j. heap k \<noteq> None) \<and> heap (Suc j) = None"
      and "(\<forall>k \<le> j'. heap k \<noteq> None) \<and> heap (Suc j') = None" for j j'
  proof (rule ccontr)
    assume "j \<noteq> j'"
    then consider "Suc j \<le> j'" | "Suc j' \<le> j" by linarith
    then show False using that by cases blast+
  qed
  consider (pool) "heap 0 = None" | (all) ?all
    | (thread) j where "j < length (threads r)" "\<forall>k \<le> j. heap k \<noteq> None" "heap (Suc j) = None"
    using first_failed_request [of "length (threads r)" heap] by blast
  then show ?thesis
  proof cases
    case pool
    then have "resize_all_jvmci_counters heap r new_size = Inr (r, False)"
      using assms(1) by (simp add: resize_all_jvmci_counters_def doit_pool_fails)
    moreover have "\<not> ?all" using pool by blast
    moreover have "\<not> ((\<forall>k \<le> j. heap k \<noteq> None) \<and> heap (Suc j) = None)" for j
      using pool by blast
    ultimately show ?thesis by (intro exI [of _ r] exI [of _ False]) blast
  next
    case all
    let ?r' = "\<lparr>JVMCICounterSize = new_size,
                 jvmci_old_thread_counters = resized ?c new_size (jvmci_old_thread_counters r),
                 threads = map (resized_thread ?c new_size) (threads r)\<rparr>"
    have run: "resize_all_jvmci_counters heap r new_size = Inr (?r', True)"
      using assms all by (simp add: resize_all_jvmci_counters_def doit_all)
    have "heap 0 \<noteq> None" using all by blast
    moreover have "\<not> ((\<forall>k \<le> j. heap k \<noteq> None) \<and> heap (Suc j) = None)" if "j < length (threads r)" for j
      using all that by (simp add: Suc_le_eq)
    moreover have "allocated new_size (jvmci_old_thread_counters ?r')"
      using assms by (simp add: consistent_def allocated_resized)
    moreover have "list_all (\<lambda>t. allocated new_size (jvmci_counters t)) (threads ?r')"
      using assms by (auto simp: consistent_def list_all_iff resized_thread_def intro: allocated_resized)
    ultimately show ?thesis using run all by (intro exI [of _ ?r'] exI [of _ True]) blast
  next
    case thread
    let ?r' = "\<lparr>JVMCICounterSize = ?c,
                 jvmci_old_thread_counters = resized ?c new_size (jvmci_old_thread_counters r),
                 threads = map (resized_thread ?c new_size) (take j (threads r)) @ drop j (threads r)\<rparr>"
    have run: "resize_all_jvmci_counters heap r new_size = Inr (?r', False)"
      using assms thread by (simp add: resize_all_jvmci_counters_def doit_thread_fails)
    have "heap 0 \<noteq> None" using thread(2) by blast
    moreover have "\<not> ?all" using thread(1,3) by (meson Suc_leI)
    moreover have "jvmci_old_thread_counters ?r' = resized ?c new_size (jvmci_old_thread_counters r) \<and>
        threads ?r' = map (resized_thread ?c new_size) (take j' (threads r)) @ drop j' (threads r)"
      if "(\<forall>k \<le> j'. heap k \<noteq> None) \<and> heap (Suc j') = None" for j'
      using uniq [OF that] thread(2,3) by simp
    ultimately show ?thesis using run by (intro exI [of _ ?r'] exI [of _ False]) auto
  qed
qed

theorem resize_all_jvmci_counters_outcome_witness:
  "consistent reg4 \<and>
   resize_all_jvmci_counters (\<lambda>k. Some (\<lambda>i. 9)) reg4 8 =
     Inr (\<lparr>JVMCICounterSize = 8, jvmci_old_thread_counters = Array [0, 0, 0, 0, 0, 0, 0, 0],
           threads = [\<lparr>thread_name = ''main'', is_Compiler_thread = False,
                       jvmci_counters = Array [1, 2, 3, 4, 0, 0, 0, 0]\<rparr>]\<rparr>, True) \<and>
   resize_all_jvmci_counters (\<lambda>k. None) reg4 8 = Inr (reg4, False) \<and>
   resize_all_jvmci_counters (\<lambda>k. if k = 0 then Some (\<lambda>i. 9) else None) reg4 8 =
     Inr (\<lparr>JVMCICounterSize = 4, jvmci_old_thread_counters = Array [0, 0, 0, 0, 0, 0, 0, 0],
           threads = [\<lparr>thread_name = ''main'', is_Compiler_thread = False,
                       jvmci_counters = Array [1, 2, 3, 4]\<rparr>]\<rparr>, False)"
proof -
  have n: "(0::int) \<le> 8" by simp
  note c = consistent_reg4
  have l: "length (threads reg4) = 1" by (simp add: reg4_def)
  have one: "resize_all_jvmci_counters (\<lambda>k. Some (\<lambda>i. 9)) reg4 8 =
     Inr (\<lparr>JVMCICounterSize = 8, jvmci_old_thread_counters = Array [0, 0, 0, 0, 0, 0, 0, 0],
           threads = [\<lparr>thread_name = ''main'', is_Compiler_thread = False,
                       jvmci_counters = Array [1, 2, 3, 4, 0, 0, 0, 0]\<rparr>]\<rparr>, True)"
  proof -
    from resize_all_jvmci_counters_outcome [OF n c, of "\<lambda>k. Some (\<lambda>i. 9)"]
    obtain r' ok where o: "resize_all_jvmci_counters (\<lambda>k. Some (\<lambda>i. 9)) reg4 8 = Inr (r', ok)"
      "ok \<longleftrightarrow> (\<forall>k \<le> length (threads reg4). (Some (\<lambda>i. 9) :: heap_request) \<noteq> None)"
      "ok \<longrightarrow> r' = \<lparr>JVMCICounterSize = 8,
                     jvmci_old_thread_counters =
                       resized (JVMCICounterSize reg4) 8 (jvmci_old_thread_counters reg4),
                     threads = map (resized_thread (JVMCICounterSize reg4) 8) (threads reg4)\<rparr>"
      by blast
    from o(2) have ok by simp
    with o(1,3) show ?thesis
      by (simp add: reg4_def resized_def resized_thread_def numeral_eq_Suc)
  qed
  have two: "resize_all_jvmci_counters (\<lambda>k. None) reg4 8 = Inr (reg4, False)"
  proof -
    from resize_all_jvmci_counters_outcome [OF n c, of "\<lambda>k. None"]
    obtain r' ok where o: "resize_all_jvmci_counters (\<lambda>k. None) reg4 8 = Inr (r', ok)"
      "ok \<longleftrightarrow> (\<forall>k \<le> length (threads reg4). (None :: heap_request) \<noteq> None)"
      "(None :: heap_request) = None \<longrightarrow> r' = reg4"
      by blast
    from o(2) have "\<not> ok" by auto
    with o(1,3) show ?thesis by simp
  qed
  have three: "resize_all_jvmci_counters (\<lambda>k. if k = 0 then Some (\<lambda>i. 9) else None) reg4 8 =
     Inr (\<lparr>JVMCICounterSize = 4, jvmci_old_thread_counters = Array [0, 0, 0, 0, 0, 0, 0, 0],
           threads = [\<lparr>thread_name = ''main'', is_Compiler_thread = False,
                       jvmci_counters = Array [1, 2, 3, 4]\<rparr>]\<rparr>, False)"
  proof -
    let ?heap = "\<lambda>k. if k = 0 then Some (\<lambda>i. 9) else (None :: heap_request)"
    from resize_all_jvmci_counters_outcome [OF n c, of ?heap]
    obtain r' ok where o: "resize_all_jvmci_counters ?heap reg4 8 = Inr (r', ok)"
      "ok \<longleftrightarrow> (\<forall>k \<le> length (threads reg4). ?heap k \<noteq> None)"
      "\<not> ok \<longrightarrow> JVMCICounterSize r' = JVMCICounterSize reg4"
      "\<forall>j < length (threads reg4). (\<forall>k \<le> j. ?heap k \<noteq> None) \<and> ?heap (Suc j) = None \<longrightarrow>
          jvmci_old_thread_counters r' = resized (JVMCICounterSize reg4) 8 (jvmci_old_thread_counters reg4) \<and>
          threads r' = map (resized_thread (JVMCICounterSize reg4) 8) (take j (threads reg4)) @ drop j (threads reg4)"
      by blast
    from o(2) l have nok: "\<not> ok" by auto
    from o(4) l have "jvmci_old_thread_counters r' = resized (JVMCICounterSize reg4) 8 (jvmci_old_thread_counters reg4) \<and>
          threads r' = map (resized_thread (JVMCICounterSize reg4) 8) (take 0 (threads reg4)) @ drop 0 (threads reg4)"
      by simp
    with o(3) nok have "r' = \<lparr>JVMCICounterSize = 4, jvmci_old_thread_counters = Array [0, 0, 0, 0, 0, 0, 0, 0],
           threads = [\<lparr>thread_name = ''main'', is_Compiler_thread = False,
                       jvmci_counters = Array [1, 2, 3, 4]\<rparr>]\<rparr>"
      by (cases r') (simp add: reg4_def resized_def numeral_eq_Suc)
    with o(1) nok show ?thesis by simp
  qed
  show ?thesis using c one two three by simp
qed

text \<open>
  That no block changes when an allocation fails does not hold of the code: with
  four counters and one live thread, growing to eight when the retired pool's request
  succeeds and the thread's request fails leaves the retired pool with eight cells,
  although failure is reported.
\<close>

theorem resize_all_jvmci_counters_partial:
  "resize_all_jvmci_counters (\<lambda>k. if k = 0 then Some (\<lambda>i. 9) else None) reg4 8 =
     Inr (reg4\<lparr>jvmci_old_thread_counters := Array [0, 0, 0, 0, 0, 0, 0, 0]\<rparr>, False) \<and>
   jvmci_old_thread_counters reg4 = Array [0, 0, 0, 0]"
proof -
  let ?heap = "\<lambda>k. if k = 0 then Some (\<lambda>i. 9) else (None :: heap_request)"
  have "doit ?heap reg4 8 =
      Inr (\<lparr>JVMCICounterSize = JVMCICounterSize reg4,
            jvmci_old_thread_counters = resized (JVMCICounterSize reg4) 8 (jvmci_old_thread_counters reg4),
            threads = map (resized_thread (JVMCICounterSize reg4) 8) (take 0 (threads reg4)) @
                      drop 0 (threads reg4)\<rparr>, True)"
    by (rule doit_thread_fails) (simp_all add: consistent_reg4, simp add: reg4_def)
  then show ?thesis
    by (simp add: resize_all_jvmci_counters_def reg4_def resized_def numeral_eq_Suc)
qed

subsection \<open>Collecting the counters\<close>

lemma add_counters_run:
  "nat n \<le> length array \<Longrightarrow> nat n \<le> length cs \<Longrightarrow> i \<le> nat n \<Longrightarrow>
   add_counters array cs i n =
     Inr (take i array @ map2 (+) (drop i (take (nat n) array)) (drop i (take (nat n) cs)) @
          drop (nat n) array)"
proof (induction array cs i n rule: add_counters.induct)
  case (1 array cs i n)
  show ?case
  proof (cases "int i < n")
    case False
    with "1.prems" have e: "i = nat n" by linarith
    have "add_counters array cs i n = Inr array"
      using False by (simp add: add_counters.simps [of array cs i n])
    moreover have "take i array @ map2 (+) (drop i (take (nat n) array)) (drop i (take (nat n) cs)) @
        drop (nat n) array = array"
      by (simp add: e)
    ultimately show ?thesis by simp
  next
    case True
    let ?a = "array[i := array ! i + cs ! i]"
    from True "1.prems" have b: "i < length array" "i < length cs" "Suc i \<le> nat n" "i < nat n"
      by linarith+
    have step: "add_counters array cs i n = add_counters ?a cs (Suc i) n"
      using True b by (simp add: add_counters.simps [of array cs i n])
    have ih: "add_counters ?a cs (Suc i) n =
        Inr (take (Suc i) ?a @ map2 (+) (drop (Suc i) (take (nat n) ?a)) (drop (Suc i) (take (nat n) cs)) @
             drop (nat n) ?a)"
      using "1.IH" [OF True] b "1.prems" by simp
    have t: "take (Suc i) ?a = take i array @ [array ! i + cs ! i]"
      using b by (simp add: take_Suc_conv_app_nth)
    have m: "drop (Suc i) (take (nat n) ?a) = drop (Suc i) (take (nat n) array)"
      using b by (simp add: take_update_swap)
    have da: "drop i (take (nat n) array) = array ! i # drop (Suc i) (take (nat n) array)"
      using b by (simp add: Cons_nth_drop_Suc [symmetric])
    have dc: "drop i (take (nat n) cs) = cs ! i # drop (Suc i) (take (nat n) cs)"
      using b by (simp add: Cons_nth_drop_Suc [symmetric])
    have u: "drop (nat n) ?a = drop (nat n) array"
      using b by simp
    show ?thesis
      by (simp add: step ih t m da dc u)
  qed
qed

lemma add_counters_all:
  assumes "nat n \<le> length array" and "nat n \<le> length cs"
  shows "add_counters array cs 0 n =
           Inr (map (\<lambda>i. array ! i + cs ! i) [0..<nat n] @ drop (nat n) array)"
proof -
  have "map2 (+) (take (nat n) array) (take (nat n) cs) = map (\<lambda>i. array ! i + cs ! i) [0..<nat n]"
    using assms by (intro nth_equalityI) simp_all
  then show ?thesis
    using add_counters_run [OF assms, of 0] by simp
qed

lemma copy_counters_all:
  assumes "nat n \<le> length array" and "nat n \<le> length cs"
  shows "copy_counters array cs 0 n = Inr (map (\<lambda>i. cs ! i) [0..<nat n] @ drop (nat n) array)"
proof -
  have "take (nat n) cs = map (\<lambda>i. cs ! i) [0..<nat n]"
    using assms by (intro nth_equalityI) simp_all
  then show ?thesis
    using copy_counters_run [OF assms, of 0] by simp
qed

lemma collect_each_thread_run:
  assumes "nat n \<le> length array"
    and "\<forall>t \<in> set ts. jvmci_counters_include flags t \<longrightarrow> readable n (jvmci_counters t)"
  shows "collect_each_thread flags array n ts =
           Inr (map (\<lambda>i. array ! i + included_total flags ts i) [0..<nat n] @ drop (nat n) array)"
  using assms
proof (induction ts arbitrary: array)
  case Nil
  have "map (\<lambda>i. array ! i) [0..<nat n] @ drop (nat n) array = array"
    using Nil.prems(1) by (intro nth_equalityI) (auto simp: nth_append)
  then show ?case by (simp add: included_total_def)
next
  case (Cons t ts)
  show ?case
  proof (cases "jvmci_counters_include flags t")
    case False
    then have "included_total flags (t # ts) = included_total flags ts"
      by (simp add: included_total_def fun_eq_iff)
    then show ?thesis using False Cons by simp
  next
    case True
    let ?cs = "cells (jvmci_counters t)"
    let ?a = "map (\<lambda>i. array ! i + ?cs ! i) [0..<nat n] @ drop (nat n) array"
    have r: "nat n \<le> length ?cs" using True Cons.prems(2) by (simp add: readable_def)
    have a: "add_counters array ?cs 0 n = Inr ?a"
      using Cons.prems(1) r by (rule add_counters_all)
    have la: "nat n \<le> length ?a" by simp
    have ih: "collect_each_thread flags ?a n ts =
        Inr (map (\<lambda>i. ?a ! i + included_total flags ts i) [0..<nat n] @ drop (nat n) ?a)"
      using Cons.IH [OF la] Cons.prems(2) by simp
    have "map (\<lambda>i. ?a ! i + included_total flags ts i) [0..<nat n] =
        map (\<lambda>i. array ! i + included_total flags (t # ts) i) [0..<nat n]"
      using True by (auto simp: nth_append included_total_def add.assoc)
    moreover have "drop (nat n) ?a = drop (nat n) array" by simp
    ultimately show ?thesis using True a ih by simp
  qed
qed

lemma included_total_mset:
  assumes "mset ts = mset ts'"
  shows "included_total flags ts i = included_total flags ts' i"
proof -
  let ?f = "\<lambda>t. cells (jvmci_counters t) ! i"
  let ?P = "jvmci_counters_include flags"
  have "mset (map ?f (filter ?P ts)) = mset (map ?f (filter ?P ts'))"
    using assms by simp
  then have "sum_mset (mset (map ?f (filter ?P ts))) = sum_mset (mset (map ?f (filter ?P ts')))"
    by simp
  then show ?thesis
    unfolding included_total_def by (simp only: sum_mset_sum_list)
qed


lemma collect_counters_run:
  assumes "\<not> ASSERT flags \<or> len = JVMCICounterSize r"
    and "nat len \<le> length array"
    and "readable len (jvmci_old_thread_counters r)"
    and "\<forall>t \<in> set (threads r). jvmci_counters_include flags t \<longrightarrow> readable len (jvmci_counters t)"
  shows "collect_counters flags r array len =
           Inr (map (\<lambda>i. cells (jvmci_old_thread_counters r) ! i + included_total flags (threads r) i)
                  [0..<nat len] @ drop (nat len) array)"
proof -
  let ?old = "cells (jvmci_old_thread_counters r)"
  let ?a = "map (\<lambda>i. ?old ! i) [0..<nat len] @ drop (nat len) array"
  have c: "copy_counters array ?old 0 len = Inr ?a"
    using assms(2,3) by (intro copy_counters_all) (simp_all add: readable_def)
  have la: "nat len \<le> length ?a" by simp
  have e: "collect_each_thread flags ?a len (threads r) =
      Inr (map (\<lambda>i. ?a ! i + included_total flags (threads r) i) [0..<nat len] @ drop (nat len) ?a)"
    using la assms(4) by (rule collect_each_thread_run)
  have "map (\<lambda>i. ?a ! i + included_total flags (threads r) i) [0..<nat len] =
      map (\<lambda>i. ?old ! i + included_total flags (threads r) i) [0..<nat len]"
    by (auto simp: nth_append)
  moreover have "drop (nat len) ?a = drop (nat len) array" by simp
  ultimately show ?thesis
    using assms(1) c e by (auto simp: collect_counters_def)
qed

lemma jvmci_counters_include_policy:
  "jvmci_counters_include flags =
     (\<lambda>t. \<not> (JVMCICountersExcludeCompiler flags \<and> is_Compiler_thread t))"
  by (auto simp: jvmci_counters_include_def fun_eq_iff)

lemma readable_reg3:
  "readable 4 (jvmci_old_thread_counters reg3)"
  "\<forall>t \<in> set (threads reg3).
     \<not> (JVMCICountersExcludeCompiler product_build \<and> is_Compiler_thread t) \<longrightarrow>
     readable 4 (jvmci_counters t)"
  by (simp_all add: reg3_def readable_def cells_def incremented_twice_def compiler_worker_def)

text \<open>
  C7. Called with the configured counter count as its length, on an array of at least
  that many cells, \<^verbatim>\<open>collect_counters\<close> returns and stores at every index below the
  length the retired pool's value there plus the sum of the counters there of every live
  thread that is included (every thread, unless compiler threads are excluded and the
  thread is one). Cells beyond the length keep their values, and visiting the live
  threads in any other order gives the same array.
\<close>

theorem collect_counters_sums:
  assumes "len = JVMCICounterSize r"
    and "nat len \<le> length array"
    and "readable len (jvmci_old_thread_counters r)"
    and "\<forall>t \<in> set (threads r).
           \<not> (JVMCICountersExcludeCompiler flags \<and> is_Compiler_thread t) \<longrightarrow>
           readable len (jvmci_counters t)"
  shows "\<exists>out.
           collect_counters flags r array len = Inr out \<and>
           length out = length array \<and>
           (\<forall>i. int i < len \<longrightarrow>
              out ! i =
                cells (jvmci_old_thread_counters r) ! i +
                sum_list
                  (map (\<lambda>t. cells (jvmci_counters t) ! i)
                     (filter (\<lambda>t. \<not> (JVMCICountersExcludeCompiler flags \<and> is_Compiler_thread t))
                        (threads r)))) \<and>
           (\<forall>i. len \<le> int i \<and> i < length array \<longrightarrow> out ! i = array ! i) \<and>
           (\<forall>ts. mset ts = mset (threads r) \<longrightarrow>
              collect_counters flags (r\<lparr>threads := ts\<rparr>) array len = Inr out)"
proof -
  let ?old = "cells (jvmci_old_thread_counters r)"
  let ?out = "map (\<lambda>i. ?old ! i + included_total flags (threads r) i) [0..<nat len] @ drop (nat len) array"
  have inc: "\<forall>t \<in> set (threads r). jvmci_counters_include flags t \<longrightarrow> readable len (jvmci_counters t)"
    using assms(4) by (simp add: jvmci_counters_include_policy)
  have run: "collect_counters flags r array len = Inr ?out"
    using assms(1-3) inc by (intro collect_counters_run) simp_all
  have l: "length ?out = length array"
    using assms(2) by simp
  have low: "?out ! i = ?old ! i + sum_list (map (\<lambda>t. cells (jvmci_counters t) ! i)
        (filter (\<lambda>t. \<not> (JVMCICountersExcludeCompiler flags \<and> is_Compiler_thread t)) (threads r)))"
    if "int i < len" for i
  proof -
    have "i < nat len" using that by linarith
    then show ?thesis
      by (simp add: nth_append included_total_def jvmci_counters_include_policy)
  qed
  have high: "?out ! i = array ! i" if "len \<le> int i \<and> i < length array" for i
  proof -
    have "\<not> i < nat len" "nat len \<le> i" using that by linarith+
    then show ?thesis using assms(2) by (simp add: nth_append)
  qed
  have perm: "collect_counters flags (r\<lparr>threads := ts\<rparr>) array len = Inr ?out"
    if "mset ts = mset (threads r)" for ts
  proof -
    have s: "set ts = set (threads r)" using that by (rule mset_eq_setD)
    have "collect_counters flags (r\<lparr>threads := ts\<rparr>) array len =
        Inr (map (\<lambda>i. ?old ! i + included_total flags ts i) [0..<nat len] @ drop (nat len) array)"
      using assms(1-3) inc s collect_counters_run [of flags len "r\<lparr>threads := ts\<rparr>" array] by simp
    moreover have "included_total flags ts i = included_total flags (threads r) i" for i
      using that by (rule included_total_mset)
    ultimately show ?thesis by simp
  qed
  show ?thesis
    using run l low high perm by blast
qed

theorem collect_counters_sums_witness:
  "collect_counters product_build reg3 [9, 9, 9, 9, 7] 4 = Inr [6, 0, 0, 0, 7] \<and>
   collect_counters product_build
     (reg3\<lparr>threads := [compiler_worker, incremented_twice ''c'', incremented_twice ''b'',
                        incremented_twice ''a'']\<rparr>) [9, 9, 9, 9, 7] 4 = Inr [6, 0, 0, 0, 7]"
proof -
  have h: "(4::int) = JVMCICounterSize reg3" "nat 4 \<le> length [9, 9, 9, 9, 7 :: jlong]"
    by (simp_all add: reg3_def)
  from collect_counters_sums [OF h readable_reg3]
  obtain out where o: "collect_counters product_build reg3 [9, 9, 9, 9, 7] 4 = Inr out"
    "length out = length [9, 9, 9, 9, 7 :: jlong]"
    "\<forall>i. int i < 4 \<longrightarrow>
       out ! i =
         cells (jvmci_old_thread_counters reg3) ! i +
         sum_list
           (map (\<lambda>t. cells (jvmci_counters t) ! i)
              (filter (\<lambda>t. \<not> (JVMCICountersExcludeCompiler product_build \<and> is_Compiler_thread t))
                 (threads reg3)))"
    "\<forall>i. 4 \<le> int i \<and> i < length [9, 9, 9, 9, 7 :: jlong] \<longrightarrow> out ! i = [9, 9, 9, 9, 7] ! i"
    "\<forall>ts. mset ts = mset (threads reg3) \<longrightarrow>
       collect_counters product_build (reg3\<lparr>threads := ts\<rparr>) [9, 9, 9, 9, 7] 4 = Inr out"
    by blast
  have v: "out ! 0 = 6" "out ! 1 = 0" "out ! 2 = 0" "out ! 3 = 0"
    using o(3)
    by (auto simp: reg3_def cells_def incremented_twice_def compiler_worker_def product_build_def)
  have "4 \<le> int 4 \<and> 4 < length [9, 9, 9, 9, 7 :: jlong]" by simp
  with o(4) have w: "out ! 4 = 7" by fastforce
  have out: "out = [6, 0, 0, 0, 7]"
    using o(2) v w by (intro nth_equalityI) (auto simp: less_Suc_eq numeral_eq_Suc)
  have "mset [compiler_worker, incremented_twice ''c'', incremented_twice ''b'', incremented_twice ''a'']
      = mset (threads reg3)"
    by (simp add: reg3_def)
  with o(5) have "collect_counters product_build
     (reg3\<lparr>threads := [compiler_worker, incremented_twice ''c'', incremented_twice ''b'',
                        incremented_twice ''a'']\<rparr>) [9, 9, 9, 9, 7] 4 = Inr out"
    by blast
  with o(1) out show ?thesis by simp
qed

text \<open>
  C3, in the form that holds of the code. For a call of \<^verbatim>\<open>collect_counters\<close> with a length that differs from
  the configured counter count: a build with assertions stops with the fatal error of the
  failed assertion; a product build has no check and does what it would do if the
  configured count were the given length.
\<close>

theorem collect_counters_wrong_length:
  assumes "len \<noteq> JVMCICounterSize r"
  shows "(ASSERT flags \<longrightarrow>
            collect_counters flags r array len =
              Inl (Fatal ''assert(length == JVMCICounterSize) failed: wrong value'')) \<and>
         (\<not> ASSERT flags \<longrightarrow>
            collect_counters flags r array len =
              collect_counters flags (r\<lparr>JVMCICounterSize := len\<rparr>) array len)"
  using assms by (auto simp: collect_counters_def split: sum.splits)

theorem collect_counters_wrong_length_witness:
  "collect_counters debug_build reg3 [9, 9, 9, 9] 1 =
     Inl (Fatal ''assert(length == JVMCICounterSize) failed: wrong value'') \<and>
   collect_counters product_build reg3 [9, 9, 9, 9] 1 =
     collect_counters product_build (reg3\<lparr>JVMCICounterSize := 1\<rparr>) [9, 9, 9, 9] 1"
proof -
  have h: "(1::int) \<noteq> JVMCICounterSize reg3" by (simp add: reg3_def)
  have d: "ASSERT debug_build" "\<not> ASSERT product_build"
    by (simp_all add: debug_build_def product_build_def)
  show ?thesis
    using collect_counters_wrong_length [OF h, of debug_build "[9, 9, 9, 9]"]
      collect_counters_wrong_length [OF h, of product_build "[9, 9, 9, 9]"] d
    by simp
qed

text \<open>
  That every call with a wrong length fails fatally does not hold of a product
  build: with four counters configured, a call with length 1 returns, having
  written one cell.
\<close>

theorem collect_counters_length_unchecked:
  "JVMCICounterSize reg3 = 4 \<and>
   collect_counters product_build reg3 [9, 9, 9, 9] 1 = Inr [6, 9, 9, 9]"
proof -
  have "collect_counters product_build reg3 [9, 9, 9, 9] 1 =
      Inr (map (\<lambda>i. cells (jvmci_old_thread_counters reg3) ! i +
                     included_total product_build (threads reg3) i) [0..<nat 1] @
           drop (nat 1) [9, 9, 9, 9])"
    by (rule collect_counters_run)
      (simp_all add: product_build_def reg3_def readable_def cells_def incremented_twice_def
        compiler_worker_def)
  then show ?thesis
    by (simp add: reg3_def cells_def included_total_def incremented_twice_def compiler_worker_def
        jvmci_counters_include_def product_build_def)
qed

subsection \<open>Retiring and releasing counters\<close>

lemma map2_add_nth:
  assumes "length old = n" and "length cs = n"
  shows "map (\<lambda>i. old ! i + cs ! i) [0..<n] = map2 (+) old (cs :: jlong list)"
  using assms by (intro nth_equalityI) simp_all

text \<open>
  C2, in the form that holds of the code. When the configured counter count is zero (or less),
  \<^verbatim>\<open>accumulate_counters\<close>, \<^verbatim>\<open>free_counters(thread)\<close> and \<^verbatim>\<open>free_counters()\<close>
  change nothing. When it is positive and the retired pool and the thread's block both
  have that many cells: \<^verbatim>\<open>accumulate_counters\<close> adds the thread's counters
  elementwise to the retired pool if the thread is included by the exclusion policy and
  changes nothing if it is not; \<^verbatim>\<open>free_counters(thread)\<close> releases the thread's block
  and leaves the retired pool as it is; \<^verbatim>\<open>free_counters()\<close> releases the retired pool.
\<close>

theorem retire_counters:
  "(JVMCICounterSize r \<le> 0 \<longrightarrow>
      accumulate_counters flags r thread = Inr r \<and>
      free_counters_thread r thread = Inr (r, thread) \<and>
      free_counters r = Inr r) \<and>
   (0 < JVMCICounterSize r \<and>
    jvmci_old_thread_counters r = Array old \<and> length old = nat (JVMCICounterSize r) \<and>
    jvmci_counters thread = Array cs \<and> length cs = nat (JVMCICounterSize r) \<longrightarrow>
      accumulate_counters flags r thread =
        Inr (if jvmci_counters_include flags thread
             then r\<lparr>jvmci_old_thread_counters := Array (map2 (+) old cs)\<rparr>
             else r) \<and>
      free_counters_thread r thread = Inr (r, thread\<lparr>jvmci_counters := Freed\<rparr>) \<and>
      free_counters r = Inr (r\<lparr>jvmci_old_thread_counters := Freed\<rparr>))"
proof (intro conjI impI)
  assume "JVMCICounterSize r \<le> 0"
  then show "accumulate_counters flags r thread = Inr r"
    and "free_counters_thread r thread = Inr (r, thread)"
    and "free_counters r = Inr r"
    by (simp_all add: accumulate_counters_def free_counters_thread_def free_counters_def)
next
  assume a: "0 < JVMCICounterSize r \<and>
    jvmci_old_thread_counters r = Array old \<and> length old = nat (JVMCICounterSize r) \<and>
    jvmci_counters thread = Array cs \<and> length cs = nat (JVMCICounterSize r)"
  let ?n = "JVMCICounterSize r"
  have "add_counters old cs 0 ?n = Inr (map (\<lambda>i. old ! i + cs ! i) [0..<nat ?n] @ drop (nat ?n) old)"
    using a by (intro add_counters_all) simp_all
  then have "add_counters old cs 0 ?n = Inr (map2 (+) old cs)"
    using a map2_add_nth [of old "nat ?n" cs] by simp
  then show "accumulate_counters flags r thread =
      Inr (if jvmci_counters_include flags thread
           then r\<lparr>jvmci_old_thread_counters := Array (map2 (+) old cs)\<rparr>
           else r)"
    using a by (simp add: accumulate_counters_def cells_def)
  show "free_counters_thread r thread = Inr (r, thread\<lparr>jvmci_counters := Freed\<rparr>)"
    using a by (simp add: free_counters_thread_def FREE_C_HEAP_ARRAY_def)
  show "free_counters r = Inr (r\<lparr>jvmci_old_thread_counters := Freed\<rparr>)"
    using a by (simp add: free_counters_def FREE_C_HEAP_ARRAY_def)
qed

theorem retire_counters_witness:
  "accumulate_counters product_build reg3 (incremented_twice ''a'') =
     Inr (reg3\<lparr>jvmci_old_thread_counters := Array [2, 0, 0, 0]\<rparr>) \<and>
   free_counters_thread reg3 (incremented_twice ''a'') =
     Inr (reg3, incremented_twice ''a''\<lparr>jvmci_counters := Freed\<rparr>) \<and>
   free_counters reg3 = Inr (reg3\<lparr>jvmci_old_thread_counters := Freed\<rparr>) \<and>
   accumulate_counters product_build (reg3\<lparr>JVMCICounterSize := 0\<rparr>) (incremented_twice ''a'') =
     Inr (reg3\<lparr>JVMCICounterSize := 0\<rparr>) \<and>
   free_counters_thread (reg3\<lparr>JVMCICounterSize := 0\<rparr>) (incremented_twice ''a'') =
     Inr (reg3\<lparr>JVMCICounterSize := 0\<rparr>, incremented_twice ''a'') \<and>
   free_counters (reg3\<lparr>JVMCICounterSize := 0\<rparr>) = Inr (reg3\<lparr>JVMCICounterSize := 0\<rparr>)"
proof -
  have h: "0 < JVMCICounterSize reg3 \<and>
      jvmci_old_thread_counters reg3 = Array [0, 0, 0, 0] \<and>
      length [0, 0, 0, 0 :: jlong] = nat (JVMCICounterSize reg3) \<and>
      jvmci_counters (incremented_twice ''a'') = Array [2, 0, 0, 0] \<and>
      length [2, 0, 0, 0 :: jlong] = nat (JVMCICounterSize reg3)"
    by (simp add: reg3_def incremented_twice_def)
  have i: "jvmci_counters_include product_build (incremented_twice ''a'')"
    by (simp add: jvmci_counters_include_def incremented_twice_def)
  have z: "JVMCICounterSize (reg3\<lparr>JVMCICounterSize := 0\<rparr>) \<le> 0" by simp
  show ?thesis
    using retire_counters [of reg3 product_build "incremented_twice ''a''" "[0, 0, 0, 0]" "[2, 0, 0, 0]"]
      retire_counters [of "reg3\<lparr>JVMCICounterSize := 0\<rparr>" product_build "incremented_twice ''a''" "[]" "[]"]
      h i z
    by simp
qed

text \<open>
  That freeing first folds the counters of every terminating thread into the retired
  pool does not hold of the code: for a compiler thread, when compiler threads are
  excluded, neither \<^verbatim>\<open>accumulate_counters\<close> nor \<^verbatim>\<open>free_counters(thread)\<close> changes
  the retired pool, and the block is released with its counts unfolded.
\<close>

theorem excluded_thread_not_folded:
  "jvmci_old_thread_counters reg3 = Array [0, 0, 0, 0] \<and>
   jvmci_counters compiler_worker = Array [1, 2, 3, 4] \<and>
   accumulate_counters product_build reg3 compiler_worker = Inr reg3 \<and>
   free_counters_thread reg3 compiler_worker =
     Inr (reg3, compiler_worker\<lparr>jvmci_counters := Freed\<rparr>)"
  by (simp add: accumulate_counters_def free_counters_thread_def FREE_C_HEAP_ARRAY_def
      jvmci_counters_include_def product_build_def reg3_def compiler_worker_def)

subsection \<open>The shared library of the compiler\<close>

lemma get_shared_library_fast:
  assumes "shared_library_handle lib \<noteq> None \<or> \<not> load"
  shows "get_shared_library flags os owner lib load =
           Inr (lib, shared_library_handle lib, shared_library_path lib)"
  using assms by (auto simp: get_shared_library_def Let_def)

lemma get_shared_library_step:
  assumes "get_shared_library flags os owner lib load = Inr (lib', h, p)"
  shows "h = shared_library_handle lib' \<and> p = shared_library_path lib' \<and>
         (lib' = lib \<or>
          shared_library_handle lib = None \<and> shared_library_handle lib' \<noteq> None \<and>
          (\<exists>path. dll_load_calls lib' = dll_load_calls lib @ [path]))"
  using assms
  by (auto simp: get_shared_library_def Let_def split: if_splits option.splits sum.splits)

lemma get_shared_library_calls_cached:
  assumes "shared_library_handle lib \<noteq> None"
  shows "get_shared_library_calls flags os calls lib =
           Inr (lib, map (\<lambda>c. (shared_library_handle lib, shared_library_path lib)) calls)"
  using assms
  by (induction calls) (auto simp: get_shared_library_fast)

lemma get_shared_library_calls_loads:
  assumes "get_shared_library_calls flags os calls lib = Inr (lib', returned)"
  shows "lib' = lib \<or>
         shared_library_handle lib = None \<and> shared_library_handle lib' \<noteq> None \<and>
         (\<exists>path. dll_load_calls lib' = dll_load_calls lib @ [path])"
  using assms
proof (induction calls arbitrary: lib returned)
  case Nil
  then show ?case by simp
next
  case (Cons c calls)
  obtain owner load where c: "c = (owner, load)" by (cases c)
  from Cons.prems c obtain lib1 h p rest where
    one: "get_shared_library flags os owner lib load = Inr (lib1, h, p)" and
    more: "get_shared_library_calls flags os calls lib1 = Inr (lib', rest)"
    by (auto split: sum.splits)
  from get_shared_library_step [OF one]
  consider "lib1 = lib"
    | "shared_library_handle lib = None" "shared_library_handle lib1 \<noteq> None"
      "\<exists>path. dll_load_calls lib1 = dll_load_calls lib @ [path]"
    by auto
  then show ?case
  proof cases
    case 1
    then show ?thesis using Cons.IH [OF more] by simp
  next
    case 2
    have "lib' = lib1"
      using more get_shared_library_calls_cached [OF 2(2), of flags os calls] by simp
    then show ?thesis using 2 by simp
  qed
qed

lemma get_shared_library_loads:
  assumes "shared_library_handle lib = None" and "load" and "ASSERT flags \<longrightarrow> owner"
    and "dll_locate_lib os (library_directory flags os) (JVMCI_SHARED_LIBRARY_NAME os) = Some path"
    and "dll_load os path = Inr h"
  shows "get_shared_library flags os owner lib load =
           Inr (library_after_load os lib path h, Some h, strdup os path)"
  using assms
  by (auto simp: get_shared_library_def library_directory_def library_after_load_def Let_def
      split: option.splits)

lemma get_shared_library_result:
  assumes "get_shared_library flags os owner lib load = Inr (lib', h, p)"
  shows "h = shared_library_handle lib' \<and> p = shared_library_path lib' \<and>
         (lib' = lib \<or>
          shared_library_handle lib = None \<and> load \<and>
          (\<exists>path hd.
             dll_locate_lib os (library_directory flags os) (JVMCI_SHARED_LIBRARY_NAME os) = Some path \<and>
             dll_load os path = Inr hd \<and>
             lib' = library_after_load os lib path hd))"
  using assms
  by (auto simp: get_shared_library_def library_directory_def library_after_load_def Let_def
      split: if_splits option.splits sum.splits)

lemma library_after_load_fields:
  "shared_library_handle (library_after_load os lib path h) = Some h"
  "shared_library_path (library_after_load os lib path h) = strdup os path"
  "dll_load_calls (library_after_load os lib path h) = dll_load_calls lib @ [path]"
  by (simp_all add: library_after_load_def)

lemma get_shared_library_calls_result:
  assumes "get_shared_library_calls flags os calls lib = Inr (lib', returned)"
  shows "lib' = lib \<and>
         returned = map (\<lambda>c. (shared_library_handle lib, shared_library_path lib)) calls \<or>
         shared_library_handle lib = None \<and>
         (\<exists>path hd k.
            k < length calls \<and> snd (calls ! k) \<and>
            dll_locate_lib os (library_directory flags os) (JVMCI_SHARED_LIBRARY_NAME os) = Some path \<and>
            dll_load os path = Inr hd \<and>
            lib' = library_after_load os lib path hd \<and>
            returned = replicate k (None, shared_library_path lib) @
                       replicate (length calls - k) (Some hd, strdup os path))"
  using assms
proof (induction calls arbitrary: returned)
  case Nil
  then show ?case by simp
next
  case (Cons c calls)
  obtain owner load where c: "c = (owner, load)" by (cases c)
  from Cons.prems c obtain lib1 h p rest where
    one: "get_shared_library flags os owner lib load = Inr (lib1, h, p)" and
    more: "get_shared_library_calls flags os calls lib1 = Inr (lib', rest)" and
    ret: "returned = (h, p) # rest"
    by (auto split: sum.splits)
  let ?loc = "dll_locate_lib os (library_directory flags os) (JVMCI_SHARED_LIBRARY_NAME os)"
  from get_shared_library_result [OF one]
  have hp: "h = shared_library_handle lib1" "p = shared_library_path lib1" by simp_all
  from get_shared_library_result [OF one]
  consider (same) "lib1 = lib"
    | (loaded) path hd where "shared_library_handle lib = None" "load" "?loc = Some path"
      "dll_load os path = Inr hd" "lib1 = library_after_load os lib path hd"
    by auto
  then show ?case
  proof cases
    case same
    from Cons.IH [of rest] more same
    consider (unchanged) "lib' = lib"
        "rest = map (\<lambda>c. (shared_library_handle lib, shared_library_path lib)) calls"
      | (later) path hd k where "shared_library_handle lib = None" "k < length calls"
        "snd (calls ! k)" "?loc = Some path" "dll_load os path = Inr hd"
        "lib' = library_after_load os lib path hd"
        "rest = replicate k (None, shared_library_path lib) @
                replicate (length calls - k) (Some hd, strdup os path)"
      by auto
    then show ?thesis
    proof cases
      case unchanged
      then show ?thesis using ret hp same by simp
    next
      case later
      have "Suc k < length (c # calls)" "snd ((c # calls) ! Suc k)"
        using later(2,3) by simp_all
      moreover have "returned = replicate (Suc k) (None, shared_library_path lib) @
          replicate (length (c # calls) - Suc k) (Some hd, strdup os path)"
        using ret hp same later(1,7) by simp
      ultimately show ?thesis using later(1,4,5,6) by blast
    qed
  next
    case loaded
    have cached: "shared_library_handle lib1 \<noteq> None"
      using loaded(5) by (simp add: library_after_load_fields)
    have "get_shared_library_calls flags os calls lib1 =
        Inr (lib1, map (\<lambda>c. (shared_library_handle lib1, shared_library_path lib1)) calls)"
      using cached by (rule get_shared_library_calls_cached)
    with more have l: "lib' = lib1"
      and r: "rest = map (\<lambda>c. (shared_library_handle lib1, shared_library_path lib1)) calls"
      by auto
    have "rest = replicate (length calls) (Some hd, strdup os path)"
      using r loaded(5) by (simp add: library_after_load_fields map_replicate_const)
    then have "returned = replicate 0 (None, shared_library_path lib) @
        replicate (length (c # calls) - 0) (Some hd, strdup os path)"
      using ret hp loaded(5) by (simp add: library_after_load_fields)
    moreover have "0 < length (c # calls)" "snd ((c # calls) ! 0)"
      using c loaded(2) by simp_all
    ultimately show ?thesis using loaded(1,3,4) l loaded(5) by blast
  qed
qed

text \<open>
  C4. \<^verbatim>\<open>get_shared_library\<close> caches, and loads at most once. When a handle is cached or
  \<open>load\<close> is false, it returns the cached handle and path (either may be null) and
  changes nothing, so \<^verbatim>\<open>os::dll_load\<close> is not called. Once a handle is cached, every
  run of further calls returns that handle and path each time and leaves the fields and
  the record of loads as they were. And whatever run of calls returns: either nothing has
  changed, or there was no handle before, there is one now, and \<^verbatim>\<open>os::dll_load\<close> has
  been called exactly once.

  The handle and the path that are cached are the load's. On the slow path (no handle,
  \<open>load\<close> true, the lock owned where the build checks it), when \<^verbatim>\<open>os::dll_locate_lib\<close>
  builds a path and \<^verbatim>\<open>os::dll_load\<close> returns a handle for it, the call caches and
  returns that handle and the \<^verbatim>\<open>strdup\<close> copy of that path. Conversely, a call that
  returns has returned the fields as they are afterwards, and has changed them only by
  such a load. In a run of calls that returns, either no call changed anything and every
  call returned the fields as they were, or the fields were set by one load, by a call
  with \<open>load\<close> true: the calls before it returned a null handle, and that call and
  every later one returned the handle \<^verbatim>\<open>os::dll_load\<close> gave and the copy of the path
  \<^verbatim>\<open>os::dll_locate_lib\<close> built.
\<close>

theorem get_shared_library_caches:
  "(shared_library_handle lib \<noteq> None \<or> \<not> load \<longrightarrow>
      get_shared_library flags os owner lib load =
        Inr (lib, shared_library_handle lib, shared_library_path lib)) \<and>
   (shared_library_handle lib \<noteq> None \<longrightarrow>
      get_shared_library_calls flags os calls lib =
        Inr (lib, map (\<lambda>c. (shared_library_handle lib, shared_library_path lib)) calls)) \<and>
   (\<forall>lib' returned.
      get_shared_library_calls flags os calls lib = Inr (lib', returned) \<longrightarrow>
        lib' = lib \<or>
        shared_library_handle lib = None \<and> shared_library_handle lib' \<noteq> None \<and>
        (\<exists>path. dll_load_calls lib' = dll_load_calls lib @ [path])) \<and>
   (shared_library_handle lib = None \<and> load \<and> (ASSERT flags \<longrightarrow> owner) \<longrightarrow>
      (\<forall>path h.
         dll_locate_lib os (library_directory flags os) (JVMCI_SHARED_LIBRARY_NAME os) = Some path \<and>
         dll_load os path = Inr h \<longrightarrow>
           get_shared_library flags os owner lib load =
             Inr (library_after_load os lib path h, Some h, strdup os path) \<and>
           shared_library_handle (library_after_load os lib path h) = Some h \<and>
           shared_library_path (library_after_load os lib path h) = strdup os path \<and>
           dll_load_calls (library_after_load os lib path h) = dll_load_calls lib @ [path])) \<and>
   (\<forall>lib' h p.
      get_shared_library flags os owner lib load = Inr (lib', h, p) \<longrightarrow>
        h = shared_library_handle lib' \<and> p = shared_library_path lib' \<and>
        (lib' = lib \<or>
         shared_library_handle lib = None \<and> load \<and>
         (\<exists>path hd.
            dll_locate_lib os (library_directory flags os) (JVMCI_SHARED_LIBRARY_NAME os) = Some path \<and>
            dll_load os path = Inr hd \<and>
            lib' = library_after_load os lib path hd \<and>
            h = Some hd \<and> p = strdup os path))) \<and>
   (\<forall>lib' returned.
      get_shared_library_calls flags os calls lib = Inr (lib', returned) \<longrightarrow>
        lib' = lib \<and>
        returned = map (\<lambda>c. (shared_library_handle lib, shared_library_path lib)) calls \<or>
        shared_library_handle lib = None \<and>
        (\<exists>path hd k.
           k < length calls \<and> snd (calls ! k) \<and>
           dll_locate_lib os (library_directory flags os) (JVMCI_SHARED_LIBRARY_NAME os) = Some path \<and>
           dll_load os path = Inr hd \<and>
           lib' = library_after_load os lib path hd \<and>
           shared_library_handle lib' = Some hd \<and>
           shared_library_path lib' = strdup os path \<and>
           dll_load_calls lib' = dll_load_calls lib @ [path] \<and>
           returned = replicate k (None, shared_library_path lib) @
                      replicate (length calls - k) (Some hd, strdup os path)))"
proof (intro conjI)
  show "shared_library_handle lib \<noteq> None \<or> \<not> load \<longrightarrow>
      get_shared_library flags os owner lib load =
        Inr (lib, shared_library_handle lib, shared_library_path lib)"
    using get_shared_library_fast [of lib load flags os owner] by blast
  show "shared_library_handle lib \<noteq> None \<longrightarrow>
      get_shared_library_calls flags os calls lib =
        Inr (lib, map (\<lambda>c. (shared_library_handle lib, shared_library_path lib)) calls)"
    using get_shared_library_calls_cached [of lib flags os calls] by blast
  show "\<forall>lib' returned.
      get_shared_library_calls flags os calls lib = Inr (lib', returned) \<longrightarrow>
        lib' = lib \<or>
        shared_library_handle lib = None \<and> shared_library_handle lib' \<noteq> None \<and>
        (\<exists>path. dll_load_calls lib' = dll_load_calls lib @ [path])"
    using get_shared_library_calls_loads [of flags os calls lib] by blast
  show "shared_library_handle lib = None \<and> load \<and> (ASSERT flags \<longrightarrow> owner) \<longrightarrow>
      (\<forall>path h.
         dll_locate_lib os (library_directory flags os) (JVMCI_SHARED_LIBRARY_NAME os) = Some path \<and>
         dll_load os path = Inr h \<longrightarrow>
           get_shared_library flags os owner lib load =
             Inr (library_after_load os lib path h, Some h, strdup os path) \<and>
           shared_library_handle (library_after_load os lib path h) = Some h \<and>
           shared_library_path (library_after_load os lib path h) = strdup os path \<and>
           dll_load_calls (library_after_load os lib path h) = dll_load_calls lib @ [path])"
    using get_shared_library_loads [of lib load flags owner os]
    by (simp add: library_after_load_fields)
  show "\<forall>lib' h p.
      get_shared_library flags os owner lib load = Inr (lib', h, p) \<longrightarrow>
        h = shared_library_handle lib' \<and> p = shared_library_path lib' \<and>
        (lib' = lib \<or>
         shared_library_handle lib = None \<and> load \<and>
         (\<exists>path hd.
            dll_locate_lib os (library_directory flags os) (JVMCI_SHARED_LIBRARY_NAME os) = Some path \<and>
            dll_load os path = Inr hd \<and>
            lib' = library_after_load os lib path hd \<and>
            h = Some hd \<and> p = strdup os path))"
  proof (intro allI impI)
    fix lib' h p
    assume r: "get_shared_library flags os owner lib load = Inr (lib', h, p)"
    from get_shared_library_result [OF r]
    show "h = shared_library_handle lib' \<and> p = shared_library_path lib' \<and>
        (lib' = lib \<or>
         shared_library_handle lib = None \<and> load \<and>
         (\<exists>path hd.
            dll_locate_lib os (library_directory flags os) (JVMCI_SHARED_LIBRARY_NAME os) = Some path \<and>
            dll_load os path = Inr hd \<and>
            lib' = library_after_load os lib path hd \<and>
            h = Some hd \<and> p = strdup os path))"
      by (auto simp: library_after_load_fields)
  qed
  show "\<forall>lib' returned.
      get_shared_library_calls flags os calls lib = Inr (lib', returned) \<longrightarrow>
        lib' = lib \<and>
        returned = map (\<lambda>c. (shared_library_handle lib, shared_library_path lib)) calls \<or>
        shared_library_handle lib = None \<and>
        (\<exists>path hd k.
           k < length calls \<and> snd (calls ! k) \<and>
           dll_locate_lib os (library_directory flags os) (JVMCI_SHARED_LIBRARY_NAME os) = Some path \<and>
           dll_load os path = Inr hd \<and>
           lib' = library_after_load os lib path hd \<and>
           shared_library_handle lib' = Some hd \<and>
           shared_library_path lib' = strdup os path \<and>
           dll_load_calls lib' = dll_load_calls lib @ [path] \<and>
           returned = replicate k (None, shared_library_path lib) @
                      replicate (length calls - k) (Some hd, strdup os path))"
  proof (intro allI impI)
    fix lib' returned
    assume r: "get_shared_library_calls flags os calls lib = Inr (lib', returned)"
    from get_shared_library_calls_result [OF r]
    show "lib' = lib \<and>
        returned = map (\<lambda>c. (shared_library_handle lib, shared_library_path lib)) calls \<or>
        shared_library_handle lib = None \<and>
        (\<exists>path hd k.
           k < length calls \<and> snd (calls ! k) \<and>
           dll_locate_lib os (library_directory flags os) (JVMCI_SHARED_LIBRARY_NAME os) = Some path \<and>
           dll_load os path = Inr hd \<and>
           lib' = library_after_load os lib path hd \<and>
           shared_library_handle lib' = Some hd \<and>
           shared_library_path lib' = strdup os path \<and>
           dll_load_calls lib' = dll_load_calls lib @ [path] \<and>
           returned = replicate k (None, shared_library_path lib) @
                      replicate (length calls - k) (Some hd, strdup os path))"
      by (elim disjE conjE exE) (simp, simp add: library_after_load_fields, blast)
  qed
qed

theorem get_shared_library_caches_witness:
  "get_shared_library debug_build loading_os False no_library False = Inr (no_library, None, None) \<and>
   dll_locate_lib loading_os (library_directory debug_build loading_os)
       (JVMCI_SHARED_LIBRARY_NAME loading_os) = Some ''/jdk/lib/libjvmcicompiler.so'' \<and>
   dll_load loading_os ''/jdk/lib/libjvmcicompiler.so'' = Inr 4096 \<and>
   strdup loading_os ''/jdk/lib/libjvmcicompiler.so'' = Some ''/jdk/lib/libjvmcicompiler.so'' \<and>
   get_shared_library debug_build loading_os True no_library True =
     Inr (loaded_library, Some 4096, Some ''/jdk/lib/libjvmcicompiler.so'') \<and>
   get_shared_library_calls debug_build loading_os [(True, True), (False, True), (False, False)]
       loaded_library =
     Inr (loaded_library,
          [(Some 4096, Some ''/jdk/lib/libjvmcicompiler.so''),
           (Some 4096, Some ''/jdk/lib/libjvmcicompiler.so''),
           (Some 4096, Some ''/jdk/lib/libjvmcicompiler.so'')]) \<and>
   get_shared_library_calls product_build loading_os [(True, False), (True, True), (True, True)]
       no_library =
     Inr (loaded_library,
          [(None, None),
           (Some 4096, Some ''/jdk/lib/libjvmcicompiler.so''),
           (Some 4096, Some ''/jdk/lib/libjvmcicompiler.so'')]) \<and>
   dll_load_calls loaded_library = dll_load_calls no_library @ [''/jdk/lib/libjvmcicompiler.so'']"
proof -
  let ?path = "''/jdk/lib/libjvmcicompiler.so''"
  have os: "dll_locate_lib loading_os (library_directory debug_build loading_os)
        (JVMCI_SHARED_LIBRARY_NAME loading_os) = Some ?path"
    "dll_locate_lib loading_os (library_directory product_build loading_os)
        (JVMCI_SHARED_LIBRARY_NAME loading_os) = Some ?path"
    "dll_load loading_os ?path = Inr 4096"
    "strdup loading_os ?path = Some ?path"
    by (simp_all add: loading_os_def no_load_os_def library_directory_def debug_build_def
        product_build_def)
  have after: "library_after_load loading_os no_library ?path 4096 = loaded_library"
    by (simp add: library_after_load_def loaded_library_def no_library_def os(4))
  have a: "get_shared_library debug_build loading_os False no_library False = Inr (no_library, None, None)"
    using get_shared_library_caches [of no_library False debug_build loading_os False]
    by (simp add: no_library_def)
  have slow: "shared_library_handle no_library = None \<and> True \<and> (ASSERT flags \<longrightarrow> True)" for flags
    by (simp add: no_library_def)
  have "\<forall>path h.
      dll_locate_lib loading_os (library_directory debug_build loading_os)
        (JVMCI_SHARED_LIBRARY_NAME loading_os) = Some path \<and>
      dll_load loading_os path = Inr h \<longrightarrow>
        get_shared_library debug_build loading_os True no_library True =
          Inr (library_after_load loading_os no_library path h, Some h, strdup loading_os path)"
    using get_shared_library_caches [of no_library True debug_build loading_os True] slow
    by blast
  with os(1,3) have e: "get_shared_library debug_build loading_os True no_library True =
      Inr (loaded_library, Some 4096, Some ?path)"
    by (simp add: after os(4))
  have "\<forall>path h.
      dll_locate_lib loading_os (library_directory product_build loading_os)
        (JVMCI_SHARED_LIBRARY_NAME loading_os) = Some path \<and>
      dll_load loading_os path = Inr h \<longrightarrow>
        get_shared_library product_build loading_os True no_library True =
          Inr (library_after_load loading_os no_library path h, Some h, strdup loading_os path)"
    using get_shared_library_caches [of no_library True product_build loading_os True] slow
    by blast
  with os(2,3) have e': "get_shared_library product_build loading_os True no_library True =
      Inr (loaded_library, Some 4096, Some ?path)"
    by (simp add: after os(4))
  have cached: "shared_library_handle loaded_library \<noteq> None"
    "shared_library_handle loaded_library = Some 4096"
    "shared_library_path loaded_library = Some ?path"
    by (simp_all add: loaded_library_def)
  have b: "get_shared_library_calls debug_build loading_os [(True, True), (False, True), (False, False)]
       loaded_library =
     Inr (loaded_library, [(Some 4096, Some ?path), (Some 4096, Some ?path), (Some 4096, Some ?path)])"
  proof -
    have "get_shared_library_calls debug_build loading_os [(True, True), (False, True), (False, False)]
        loaded_library =
      Inr (loaded_library,
           map (\<lambda>c. (shared_library_handle loaded_library, shared_library_path loaded_library))
             [(True, True), (False, True), (False, False)])"
      using get_shared_library_caches [of loaded_library True debug_build loading_os True
          "[(True, True), (False, True), (False, False)]"] cached(1)
      by blast
    then show ?thesis by (simp add: cached)
  qed
  have first: "get_shared_library product_build loading_os True no_library False =
      Inr (no_library, None, None)"
    using get_shared_library_caches [of no_library False product_build loading_os True]
    by (simp add: no_library_def)
  have rest: "get_shared_library_calls product_build loading_os [(True, True)] loaded_library =
      Inr (loaded_library, [(Some 4096, Some ?path)])"
  proof -
    have "get_shared_library_calls product_build loading_os [(True, True)] loaded_library =
      Inr (loaded_library,
           map (\<lambda>c. (shared_library_handle loaded_library, shared_library_path loaded_library))
             [(True, True)])"
      using get_shared_library_caches [of loaded_library True product_build loading_os True
          "[(True, True)]"] cached(1)
      by blast
    then show ?thesis by (simp add: cached)
  qed
  have c: "get_shared_library_calls product_build loading_os [(True, False), (True, True), (True, True)]
       no_library =
     Inr (loaded_library, [(None, None), (Some 4096, Some ?path), (Some 4096, Some ?path)])"
    using first e' rest by simp
  have "loaded_library = no_library \<or>
      shared_library_handle no_library = None \<and> shared_library_handle loaded_library \<noteq> None \<and>
      (\<exists>path. dll_load_calls loaded_library = dll_load_calls no_library @ [path])"
    using get_shared_library_caches [of no_library True product_build loading_os True
        "[(True, False), (True, True), (True, True)]"] c
    by blast
  then have d: "dll_load_calls loaded_library = dll_load_calls no_library @ [?path]"
    by (auto simp: loaded_library_def no_library_def)
  show ?thesis using a os(1,3,4) e b c d by simp
qed

text \<open>
  C5, in the form that holds of the code. On the slow path (no handle cached, \<open>load\<close> true, and the lock owned
  where the build checks it), the directory is the flag \<^verbatim>\<open>JVMCILibPath\<close> when it is
  set and the VM's library directory otherwise. When no path can be built for it, the VM
  stops with a fatal error whose message names the value of \<^verbatim>\<open>JVMCILibPath\<close> if the
  flag is set and names nothing otherwise. When the path is built and loading fails, the
  VM stops with a fatal error whose message names that path and the error text of the
  operating system. Neither failure returns.
\<close>

theorem get_shared_library_fatal:
  assumes "shared_library_handle lib = None" and "load" and "ASSERT flags \<longrightarrow> owner"
  shows "(dll_locate_lib os (library_directory flags os) (JVMCI_SHARED_LIBRARY_NAME os) = None \<longrightarrow>
            get_shared_library flags os owner lib load =
              Inl (Fatal (case JVMCILibPath flags of
                            Some lib_path \<Rightarrow>
                              ''Unable to create path to JVMCI shared library based on value of JVMCILibPath ('' @
                              lib_path @ '')''
                          | None \<Rightarrow> ''Unable to create path to JVMCI shared library''))) \<and>
         (\<forall>path ebuf.
            dll_locate_lib os (library_directory flags os) (JVMCI_SHARED_LIBRARY_NAME os) = Some path \<and>
            dll_load os path = Inl ebuf \<longrightarrow>
              get_shared_library flags os owner lib load =
                Inl (Fatal (''Unable to load JVMCI shared library from '' @ path @ '': '' @ ebuf)))"
  using assms
  by (auto simp: get_shared_library_def library_directory_def split: option.splits)

theorem get_shared_library_fatal_witness:
  "get_shared_library debug_build no_path_os True no_library True =
     Inl (Fatal ''Unable to create path to JVMCI shared library'') \<and>
   get_shared_library (debug_build\<lparr>JVMCILibPath := Some ''/opt/graal''\<rparr>) no_path_os True no_library True =
     Inl (Fatal ''Unable to create path to JVMCI shared library based on value of JVMCILibPath (/opt/graal)'') \<and>
   get_shared_library (debug_build\<lparr>JVMCILibPath := Some ''/opt/graal''\<rparr>) no_load_os True no_library True =
     Inl (Fatal ''Unable to load JVMCI shared library from /opt/graal/libjvmcicompiler.so: file not found'')"
proof -
  have h: "shared_library_handle no_library = None" "True"
    "ASSERT debug_build \<longrightarrow> True"
    "ASSERT (debug_build\<lparr>JVMCILibPath := Some ''/opt/graal''\<rparr>) \<longrightarrow> True"
    by (simp_all add: no_library_def)
  show ?thesis
    using get_shared_library_fatal [OF h(1,2,3), of no_path_os]
      get_shared_library_fatal [OF h(1,2,4), of no_path_os]
      get_shared_library_fatal [OF h(1,2,4), of no_load_os]
    by (simp add: library_directory_def no_path_os_def no_load_os_def debug_build_def
        product_build_def)
qed

text \<open>
  That both failures name the attempted path and the error text of the operating
  system does not hold of the code: with no \<^verbatim>\<open>JVMCILibPath\<close>, when no path can be built
  for the VM's library directory, the message is a fixed text.
\<close>

theorem get_shared_library_no_path_named:
  "library_directory product_build no_path_os = ''/jdk/lib'' \<and>
   get_shared_library product_build no_path_os True no_library True =
     Inl (Fatal ''Unable to create path to JVMCI shared library'')"
  by (simp add: get_shared_library_def library_directory_def product_build_def no_path_os_def
      no_library_def)

subsection \<open>Event log and trace\<close>

lemma print_d_1: "print_d 1 = ''1''"
  by (simp add: print_d_def print_unsigned.simps [of "Suc 0"])

text \<open>
  C8, in the form that holds of the code. For a call that passes the level check of the event log, with the
  log of that level created: when the calling thread is known to the VM, the entry is
  made for that thread; when it is not, no entry is made and the logs are unchanged. For
  a call that passes the level check of the trace: the line printed to \<^verbatim>\<open>tty\<close> carries
  the name of the calling thread when the thread is known to the VM, and \<open>?\<close> in its
  place when it is not.
\<close>

theorem event_tags:
  "(LogEvents flags \<and> level \<le> JVMCIEventLogLevel flags \<and>
    (if level = 1 then events st else verbose_events st) = Some log \<longrightarrow>
      vlog logv flags (Some t) st level message =
        Inr (if level = 1 then st\<lparr>events := Some (logv log t message)\<rparr>
             else st\<lparr>verbose_events := Some (logv log t message)\<rparr>) \<and>
      vlog logv flags None st level message = Inr st) \<and>
   (level \<le> JVMCITraceLevel flags \<longrightarrow>
      vtrace flags (Some t) st level message =
        st\<lparr>tty := tty st @ ''JVMCITrace-'' @ print_d level @ ''['' @ thread_name t @ '']:'' @
                   print_blank level @ message @ [CHR 0x0A]\<rparr> \<and>
      vtrace flags None st level message =
        st\<lparr>tty := tty st @ ''JVMCITrace-'' @ print_d level @ ''[?]:'' @
                   print_blank level @ message @ [CHR 0x0A]\<rparr>)"
  by (simp add: vlog_def vtrace_def)

theorem event_tags_witness:
  "vlog list_logv product_build (Some main_thread) empty_logs 1 ''shutting down JVMCI'' =
     Inr (empty_logs\<lparr>events := Some [(''main'', ''shutting down JVMCI'')]\<rparr>) \<and>
   vlog list_logv product_build None empty_logs 1 ''shutting down JVMCI'' = Inr empty_logs \<and>
   vtrace product_build (Some main_thread) empty_logs 1 ''shutting down JVMCI'' =
     empty_logs\<lparr>tty := ''JVMCITrace-1[main]: shutting down JVMCI'' @ [CHR 0x0A]\<rparr> \<and>
   vtrace product_build None empty_logs 1 ''shutting down JVMCI'' =
     empty_logs\<lparr>tty := ''JVMCITrace-1[?]: shutting down JVMCI'' @ [CHR 0x0A]\<rparr>"
proof -
  have h: "LogEvents product_build \<and> 1 \<le> JVMCIEventLogLevel product_build \<and>
      (if (1::int) = 1 then events empty_logs else verbose_events empty_logs) = Some []"
    "1 \<le> JVMCITraceLevel product_build"
    by (simp_all add: product_build_def empty_logs_def)
  show ?thesis
    using event_tags [of product_build 1 empty_logs "[]" list_logv main_thread "''shutting down JVMCI''"] h
    by (simp add: list_logv_def main_thread_def empty_logs_def print_d_1 print_blank_def)
qed

text \<open>
  That an entry is produced in each enabled sink also for a thread with no identity
  does not hold of the event log: a level-1 call from a thread that is not
  known to the VM, with logging enabled at level 1 and the log created, leaves the log
  empty.
\<close>

theorem vlog_drops_unattached:
  "LogEvents product_build \<and> 1 \<le> JVMCIEventLogLevel product_build \<and>
   events empty_logs = Some [] \<and>
   vlog list_logv product_build None empty_logs 1 ''shutting down JVMCI'' = Inr empty_logs"
  by (simp add: vlog_def product_build_def empty_logs_def)

subsection \<open>The log of fatal errors\<close>

text \<open>
  C9. The caller that finds \<^verbatim>\<open>_fatal_log_init_thread\<close> unset wins, returns, and
  writes to: descriptor 1 when \<^verbatim>\<open>ErrorFileToStdout\<close> is set; otherwise descriptor 2
  when \<^verbatim>\<open>ErrorFileToStderr\<close> is set; otherwise the descriptor of the file that
  \<^verbatim>\<open>prepare_log_file\<close> creates from the flag \<^verbatim>\<open>JVMCINativeLibraryErrorFile\<close> or the
  default name, whose name is then recorded; and when that creation fails, descriptor 1,
  after printing the reason and the fallback to \<^verbatim>\<open>tty\<close> once. Failure to create the
  file is not fatal.
\<close>

theorem fatal_log_target:
  assumes "fatal_log_init_thread cl = - 1"
  shows "(ErrorFileToStdout flags \<longrightarrow>
            fatal_log flags os cl buf n =
              Some (cl\<lparr>fatal_log_init_thread := current_thread_id os, fatal_log_fd := 1,
                       written := written cl @ [(1, take n buf)]\<rparr>)) \<and>
         (\<not> ErrorFileToStdout flags \<and> ErrorFileToStderr flags \<longrightarrow>
            fatal_log flags os cl buf n =
              Some (cl\<lparr>fatal_log_init_thread := current_thread_id os, fatal_log_fd := 2,
                       written := written cl @ [(2, take n buf)]\<rparr>)) \<and>
         (\<forall>fd name.
            \<not> ErrorFileToStdout flags \<and> \<not> ErrorFileToStderr flags \<and>
            prepare_log_file os (JVMCINativeLibraryErrorFile flags) (LIBJVMCI_ERR_FILE os) = (fd, name) \<longrightarrow>
              (fd \<noteq> - 1 \<longrightarrow>
                 fatal_log flags os cl buf n =
                   Some (cl\<lparr>fatal_log_init_thread := current_thread_id os, fatal_log_fd := fd,
                            fatal_log_filename := Some name,
                            written := written cl @ [(fd, take n buf)]\<rparr>)) \<and>
              (fd = - 1 \<longrightarrow>
                 fatal_log flags os cl buf n =
                   Some (cl\<lparr>fatal_log_init_thread := current_thread_id os, fatal_log_fd := 1,
                            tty := tty cl @
                              ''Can't open JVMCI shared library error report file. Error: '' @
                              strerror os (errno os) @ [CHR 0x0A] @
                              ''JVMCI shared library error report will be written to console.'' @
                              [CHR 0x0A],
                            written := written cl @ [(1, take n buf)]\<rparr>)))"
  using assms by (simp add: fatal_log_def)

theorem fatal_log_target_witness:
  "fatal_log (product_build\<lparr>ErrorFileToStdout := True, ErrorFileToStderr := True\<rparr>) writable_os
       no_crash ''boom'' 4 =
     Some \<lparr>tty = [], fatal_log_init_thread = 7, fatal_log_fd = 1, fatal_log_filename = None,
           written = [(1, ''boom'')]\<rparr> \<and>
   fatal_log (product_build\<lparr>ErrorFileToStderr := True\<rparr>) writable_os no_crash ''boom'' 4 =
     Some \<lparr>tty = [], fatal_log_init_thread = 7, fatal_log_fd = 2, fatal_log_filename = None,
           written = [(2, ''boom'')]\<rparr> \<and>
   fatal_log product_build writable_os no_crash ''boom'' 4 =
     Some \<lparr>tty = [], fatal_log_init_thread = 7, fatal_log_fd = 5,
           fatal_log_filename = Some ''hs_err_pid%p_libjvmci.log'', written = [(5, ''boom'')]\<rparr> \<and>
   fatal_log (product_build\<lparr>JVMCINativeLibraryErrorFile := Some ''/tmp/libjvmci.log''\<rparr>) writable_os
       no_crash ''boom'' 4 =
     Some \<lparr>tty = [], fatal_log_init_thread = 7, fatal_log_fd = 5,
           fatal_log_filename = Some ''/tmp/libjvmci.log'', written = [(5, ''boom'')]\<rparr> \<and>
   fatal_log product_build read_only_os no_crash ''boom'' 4 =
     Some \<lparr>tty = ''Can't open JVMCI shared library error report file. Error: Read-only file system'' @
                 [CHR 0x0A] @
                 ''JVMCI shared library error report will be written to console.'' @ [CHR 0x0A],
           fatal_log_init_thread = 7, fatal_log_fd = 1, fatal_log_filename = None,
           written = [(1, ''boom'')]\<rparr>"
proof -
  have h: "fatal_log_init_thread no_crash = - 1" by (simp add: no_crash_def)
  note t = fatal_log_target [OF h, of _ _ "''boom''" 4]
  have a: "fatal_log (product_build\<lparr>ErrorFileToStdout := True, ErrorFileToStderr := True\<rparr>) writable_os
       no_crash ''boom'' 4 =
     Some \<lparr>tty = [], fatal_log_init_thread = 7, fatal_log_fd = 1, fatal_log_filename = None,
           written = [(1, ''boom'')]\<rparr>"
    using t [of "product_build\<lparr>ErrorFileToStdout := True, ErrorFileToStderr := True\<rparr>" writable_os]
    by (simp add: no_crash_def writable_os_def read_only_os_def)
  have b: "fatal_log (product_build\<lparr>ErrorFileToStderr := True\<rparr>) writable_os no_crash ''boom'' 4 =
     Some \<lparr>tty = [], fatal_log_init_thread = 7, fatal_log_fd = 2, fatal_log_filename = None,
           written = [(2, ''boom'')]\<rparr>"
    using t [of "product_build\<lparr>ErrorFileToStderr := True\<rparr>" writable_os]
    by (simp add: no_crash_def writable_os_def read_only_os_def product_build_def)
  have c: "fatal_log product_build writable_os no_crash ''boom'' 4 =
     Some \<lparr>tty = [], fatal_log_init_thread = 7, fatal_log_fd = 5,
           fatal_log_filename = Some ''hs_err_pid%p_libjvmci.log'', written = [(5, ''boom'')]\<rparr>"
    using t [of product_build writable_os]
    by (simp add: no_crash_def writable_os_def read_only_os_def product_build_def)
  have d: "fatal_log (product_build\<lparr>JVMCINativeLibraryErrorFile := Some ''/tmp/libjvmci.log''\<rparr>) writable_os
       no_crash ''boom'' 4 =
     Some \<lparr>tty = [], fatal_log_init_thread = 7, fatal_log_fd = 5,
           fatal_log_filename = Some ''/tmp/libjvmci.log'', written = [(5, ''boom'')]\<rparr>"
    using t [of "product_build\<lparr>JVMCINativeLibraryErrorFile := Some ''/tmp/libjvmci.log''\<rparr>" writable_os]
    by (simp add: no_crash_def writable_os_def read_only_os_def product_build_def)
  have e: "fatal_log product_build read_only_os no_crash ''boom'' 4 =
     Some \<lparr>tty = ''Can't open JVMCI shared library error report file. Error: Read-only file system'' @
                 [CHR 0x0A] @
                 ''JVMCI shared library error report will be written to console.'' @ [CHR 0x0A],
           fatal_log_init_thread = 7, fatal_log_fd = 1, fatal_log_filename = None,
           written = [(1, ''boom'')]\<rparr>"
    using t [of product_build read_only_os]
    by (simp add: no_crash_def read_only_os_def product_build_def)
  show ?thesis using a b c d e by simp
qed

subsection \<open>The caches of the box classes\<close>

lemma initialize_each_pending:
  "snd (initialize_each cl cs vm) = None \<longleftrightarrow> all_initialize cl cs vm"
  by (induction cs arbitrary: vm) (auto split: prod.splits sum.splits option.splits)

lemma initialize_each_thrown:
  assumes "snd (initialize_each cl cs vm) = Some e"
  shows "(\<exists>c vm'. c \<in> set cs \<and> snd (resolve_or_fail cl c vm') = Inl e) \<or>
         (\<exists>ik vm'. snd (initialize cl ik vm') = Some e)"
  using assms
proof (induction cs arbitrary: vm)
  case Nil
  then show ?case by simp
next
  case (Cons c cs)
  obtain vm1 r where r: "resolve_or_fail cl c vm = (vm1, r)" by (cases "resolve_or_fail cl c vm")
  show ?case
  proof (cases r)
    case (Inl e')
    then have "e' = e" using Cons.prems r by simp
    then have "snd (resolve_or_fail cl c vm) = Inl e" using r Inl by simp
    then show ?thesis by auto
  next
    case (Inr ik)
    show ?thesis
    proof (cases "is_not_initialized cl ik vm1")
      case False
      then have "snd (initialize_each cl cs vm1) = Some e"
        using Cons.prems r Inr by simp
      from Cons.IH [OF this] show ?thesis by auto
    next
      case True
      obtain vm2 p where p: "initialize cl ik vm1 = (vm2, p)" by (cases "initialize cl ik vm1")
      show ?thesis
      proof (cases p)
        case None
        then have "snd (initialize_each cl cs vm2) = Some e"
          using Cons.prems r Inr True p by simp
        from Cons.IH [OF this] show ?thesis by auto
      next
        case (Some e')
        then have "e' = e" using Cons.prems r Inr True p by simp
        then have "snd (initialize cl ik vm1) = Some e" using p Some by simp
        then show ?thesis by blast
      qed
    qed
  qed
qed

lemma ensure_flag:
  assumes "\<not> box_caches_initialized s" and "ensure_box_caches_initialized cl s = (s', pending)"
  shows "(box_caches_initialized s' \<longleftrightarrow> pending = None) \<and>
         (pending = None \<longleftrightarrow> all_initialize cl box_classes (class_state s)) \<and>
         pending = snd (initialize_each cl box_classes (class_state s)) \<and>
         class_state s' = fst (initialize_each cl box_classes (class_state s))"
proof -
  obtain vm p where i: "initialize_each cl box_classes (class_state s) = (vm, p)"
    by (cases "initialize_each cl box_classes (class_state s)")
  have "p = None \<longleftrightarrow> all_initialize cl box_classes (class_state s)"
    using initialize_each_pending [of cl box_classes "class_state s"] i by simp
  then show ?thesis
    using assms i by (cases p) (auto simp: ensure_box_caches_initialized_def)
qed

text \<open>
  C10. The array of box classes has six elements. A call with the flag set changes
  nothing. A call with the flag unset leaves the flag set exactly when it leaves no
  pending exception, which is exactly when every class of the array resolved and (where
  needed) initialized without an exception. When it leaves a pending exception, that
  exception is one that resolving one of the six classes or initializing a class threw,
  the flag is still unset, and the next call goes through the whole array again: it sets
  the flag exactly when every class of the array resolves and initializes from the state
  the failed call left.
\<close>

theorem ensure_box_caches_initialized_flag:
  assumes "ensure_box_caches_initialized cl s = (s', pending)"
  shows "length box_classes = 6 \<and>
         (box_caches_initialized s \<longrightarrow> s' = s \<and> pending = None) \<and>
         (\<not> box_caches_initialized s \<longrightarrow>
            (box_caches_initialized s' \<longleftrightarrow> pending = None) \<and>
            (box_caches_initialized s' \<longleftrightarrow> all_initialize cl box_classes (class_state s)) \<and>
            (\<forall>e. pending = Some e \<longrightarrow>
               ((\<exists>c vm. c \<in> set box_classes \<and> snd (resolve_or_fail cl c vm) = Inl e) \<or>
                (\<exists>ik vm. snd (initialize cl ik vm) = Some e)) \<and>
               (\<forall>s'' pending'.
                  ensure_box_caches_initialized cl s' = (s'', pending') \<longrightarrow>
                    (box_caches_initialized s'' \<longleftrightarrow>
                       all_initialize cl box_classes (class_state s')))))"
proof (intro conjI impI allI)
  show "length box_classes = 6" by (simp add: box_classes_def)
next
  assume "box_caches_initialized s"
  then show "s' = s" "pending = None"
    using assms by (simp_all add: ensure_box_caches_initialized_def)
next
  assume n: "\<not> box_caches_initialized s"
  note f = ensure_flag [OF n assms]
  show "box_caches_initialized s' \<longleftrightarrow> pending = None" using f by blast
  show "box_caches_initialized s' \<longleftrightarrow> all_initialize cl box_classes (class_state s)" using f by blast
  fix e assume e: "pending = Some e"
  then have "snd (initialize_each cl box_classes (class_state s)) = Some e" using f by simp
  from initialize_each_thrown [OF this]
  show "(\<exists>c vm. c \<in> set box_classes \<and> snd (resolve_or_fail cl c vm) = Inl e) \<or>
        (\<exists>ik vm. snd (initialize cl ik vm) = Some e)" .
  fix s'' pending'
  assume again: "ensure_box_caches_initialized cl s' = (s'', pending')"
  have "\<not> box_caches_initialized s'" using f e by simp
  from ensure_flag [OF this again]
  show "box_caches_initialized s'' \<longleftrightarrow> all_initialize cl box_classes (class_state s')" by blast
qed

theorem ensure_box_caches_initialized_flag_witness:
  "ensure_box_caches_initialized flaky_loading
       \<lparr>box_caches_initialized = False, class_state = (1, [], [])\<rparr> =
     (\<lparr>box_caches_initialized = False,
       class_state =
         (0,
          [java_lang_Boolean, java_lang_Byte_ByteCache, java_lang_Short_ShortCache,
           java_lang_Character_CharacterCache],
          [java_lang_Boolean, java_lang_Byte_ByteCache, java_lang_Short_ShortCache,
           java_lang_Character_CharacterCache])\<rparr>,
      Some ''java.lang.NoClassDefFoundError'') \<and>
   \<not> all_initialize flaky_loading box_classes (1, [], []) \<and>
   all_initialize flaky_loading box_classes
     (0,
      [java_lang_Boolean, java_lang_Byte_ByteCache, java_lang_Short_ShortCache,
       java_lang_Character_CharacterCache],
      [java_lang_Boolean, java_lang_Byte_ByteCache, java_lang_Short_ShortCache,
       java_lang_Character_CharacterCache]) \<and>
   ensure_box_caches_initialized flaky_loading
       \<lparr>box_caches_initialized = False,
        class_state =
          (0,
           [java_lang_Boolean, java_lang_Byte_ByteCache, java_lang_Short_ShortCache,
            java_lang_Character_CharacterCache],
           [java_lang_Boolean, java_lang_Byte_ByteCache, java_lang_Short_ShortCache,
            java_lang_Character_CharacterCache])\<rparr> =
     (\<lparr>box_caches_initialized = True,
       class_state =
         (0,
          [java_lang_Boolean, java_lang_Byte_ByteCache, java_lang_Short_ShortCache,
           java_lang_Character_CharacterCache] @ box_classes,
          box_classes)\<rparr>,
      None) \<and>
   ensure_box_caches_initialized flaky_loading
       \<lparr>box_caches_initialized = True, class_state = (0, [], [])\<rparr> =
     (\<lparr>box_caches_initialized = True, class_state = (0, [], [])\<rparr>, None)"
proof -
  let ?four = "[java_lang_Boolean, java_lang_Byte_ByteCache, java_lang_Short_ShortCache,
      java_lang_Character_CharacterCache]"
  let ?s0 = "\<lparr>box_caches_initialized = False, class_state = (1 :: nat, [], [])\<rparr>"
  let ?s1 = "\<lparr>box_caches_initialized = False, class_state = (0 :: nat, ?four, ?four)\<rparr>"
  let ?s2 = "\<lparr>box_caches_initialized = True, class_state = (0 :: nat, ?four @ box_classes, box_classes)\<rparr>"
  let ?s3 = "\<lparr>box_caches_initialized = True,
      class_state = (0 :: nat, [] :: box_class list, [] :: box_class list)\<rparr>"
  have one: "ensure_box_caches_initialized flaky_loading ?s0 =
      (?s1, Some ''java.lang.NoClassDefFoundError'')"
    by (simp add: ensure_box_caches_initialized_def box_classes_def flaky_loading_def)
  have two: "ensure_box_caches_initialized flaky_loading ?s1 = (?s2, None)"
    by (simp add: ensure_box_caches_initialized_def box_classes_def flaky_loading_def)
  obtain s' pending where three: "ensure_box_caches_initialized flaky_loading ?s3 = (s', pending)"
    by (cases "ensure_box_caches_initialized flaky_loading ?s3")
  have "\<not> all_initialize flaky_loading box_classes (1, [], [])"
    using ensure_box_caches_initialized_flag [OF one] by simp
  moreover have "all_initialize flaky_loading box_classes (0, ?four, ?four)"
  proof -
    have "\<forall>s'' pending'.
        ensure_box_caches_initialized flaky_loading ?s1 = (s'', pending') \<longrightarrow>
          (box_caches_initialized s'' \<longleftrightarrow>
             all_initialize flaky_loading box_classes (class_state ?s1))"
      using ensure_box_caches_initialized_flag [OF one] by simp
    with two show ?thesis by fastforce
  qed
  moreover have "s' = ?s3 \<and> pending = None"
    using ensure_box_caches_initialized_flag [OF three] by simp
  ultimately show ?thesis using one two three by simp
qed

end
